theory Spec2Isabelle
  imports Main "HOL-Library.Sublist"
begin

section \<open>Strings and formatting\<close>

text \<open>
  A Go \<open>string\<close> is a sequence of bytes; it is modelled as a \<open>char list\<close>. The
  library functions of \<open>strings\<close> and \<open>fmt\<close> that the compiler calls are
  modelled on ASCII text: \<open>strings_ToLower\<close> and \<open>strings_Title\<close> leave bytes outside ASCII unchanged.
\<close>

abbreviation bsl :: string where
  "bsl \<equiv> [CHR 0x5C]"

abbreviation squote :: string where
  "squote \<equiv> [CHR 0x27]"

abbreviation dquote :: char where
  "dquote \<equiv> CHR 0x22"

definition digit_char :: "nat \<Rightarrow> char" where
  "digit_char d = char_of (48 + d)"

text \<open>\<open>fmt.Sprintf("%d", n)\<close> for an \<open>int\<close> that is never negative.\<close>

function itoa :: "nat \<Rightarrow> string" where
  "itoa n = (if n < 10 then [digit_char n] else itoa (n div 10) @ [digit_char (n mod 10)])"
  by pat_completeness auto
termination
  by (relation "measure id") auto

declare itoa.simps [simp del]

definition toLowerChar :: "char \<Rightarrow> char" where
  "toLowerChar c =
     (let n = (of_char c :: nat) in if 65 \<le> n \<and> n \<le> 90 then char_of (n + 32) else c)"

definition toUpperChar :: "char \<Rightarrow> char" where
  "toUpperChar c =
     (let n = (of_char c :: nat) in if 97 \<le> n \<and> n \<le> 122 then char_of (n - 32) else c)"

definition strings_ToLower :: "string \<Rightarrow> string" where
  "strings_ToLower s = map toLowerChar s"

text \<open>\<open>strings.Title\<close>: a letter that follows a separator (and the first one) is upper-cased.\<close>

definition isSeparator :: "char \<Rightarrow> bool" where
  "isSeparator c =
     (let n = (of_char c :: nat) in
      if n \<le> 127 then
        \<not> ((48 \<le> n \<and> n \<le> 57) \<or> (97 \<le> n \<and> n \<le> 122) \<or> (65 \<le> n \<and> n \<le> 90) \<or> n = 95)
      else False)"

fun strings_Title_from :: "char \<Rightarrow> string \<Rightarrow> string" where
  "strings_Title_from prev [] = []"
| "strings_Title_from prev (r # rest) =
     (if isSeparator prev then toUpperChar r # strings_Title_from r rest else r # strings_Title_from r rest)"

definition strings_Title :: "string \<Rightarrow> string" where
  "strings_Title s = strings_Title_from CHR '' '' s"

text \<open>\<open>strings.Trim(s, cutset)\<close>: all leading and trailing bytes of the cutset are removed.\<close>

definition strings_Trim :: "string \<Rightarrow> string \<Rightarrow> string" where
  "strings_Trim s cutset =
     rev (dropWhile (\<lambda>c. c \<in> set cutset) (rev (dropWhile (\<lambda>c. c \<in> set cutset) s)))"


section \<open>The abstract syntax tree (pkg/ast)\<close>

record Decorator =
  Name :: string
  Args :: "string list"
  KVArgs :: "string \<rightharpoonup> string"

record FieldDecl =
  Name :: string
  Type :: string
  IsArray :: bool
  Decorators :: "Decorator list"

record StructDecl =
  Name :: string
  Decorators :: "Decorator list"
  Fields :: "FieldDecl list"

text \<open>
  The \<open>Body\<close> members of \<open>PageDecl\<close>, \<open>HandlerDecl\<close> and \<open>FunctionDecl\<close> are
  only ever set to the empty slice and never read; they are left out of the records.
\<close>

record PageDecl =
  Name :: string
  Route :: string
  Decorators :: "Decorator list"
  Properties :: "string \<rightharpoonup> string"

record Parameter =
  Name :: string
  Type :: string

record HandlerDecl =
  Path :: string
  Method :: string
  Name :: string
  Parameters :: "Parameter list"
  Decorators :: "Decorator list"

record FunctionDecl =
  Name :: string
  ReturnType :: string
  Parameters :: "Parameter list"

text \<open>
  A \<open>Node\<close> is a Go interface value: a dynamic type together with a pointer, and the
  pointer may be \<open>nil\<close> (\<open>None\<close>) while the interface value itself is not \<open>nil\<close>.
  \<open>OtherNode\<close> stands for the node kinds that no consumer below matches.
\<close>

datatype Node =
    StructNode "StructDecl option"
  | PageNode "PageDecl option"
  | HandlerNode "HandlerDecl option"
  | FunctionNode "FunctionDecl option"
  | OtherNode

record Program =
  Statements :: "Node list"

section \<open>The C code generator (pkg/codegen/c_generator.go)\<close>

subsection \<open>Type mapping, constraints and table names\<close>

definition mapType :: "string \<Rightarrow> string" where
  "mapType zlType =
     (if zlType = ''int'' then ''int64_t''
      else if zlType = ''float'' then ''double''
      else if zlType = ''string'' then ''char*''
      else if zlType = ''bool'' then ''int''
      else if zlType = ''date'' \<or> zlType = ''datetime'' then ''char*''
      else zlType)"

definition mapSQLType :: "string \<Rightarrow> string" where
  "mapSQLType zlType =
     (if zlType = ''int'' then ''INTEGER''
      else if zlType = ''float'' then ''REAL''
      else if zlType = ''string'' then ''TEXT''
      else if zlType = ''bool'' then ''INTEGER''
      else if zlType = ''date'' \<or> zlType = ''datetime'' then ''TEXT''
      else ''TEXT'')"

fun getFieldConstraints_loop :: "Decorator list \<Rightarrow> string \<Rightarrow> string" where
  "getFieldConstraints_loop [] constraints = constraints"
| "getFieldConstraints_loop (dec # rest) constraints =
     (if Decorator.Name dec = ''primary'' then
        getFieldConstraints_loop rest (constraints @ '' PRIMARY KEY'')
      else if Decorator.Name dec = ''autoincrement'' then
        getFieldConstraints_loop rest (constraints @ '' AUTOINCREMENT'')
      else if Decorator.Name dec = ''required'' then
        getFieldConstraints_loop rest (constraints @ '' NOT NULL'')
      else if Decorator.Name dec = ''unique'' then
        getFieldConstraints_loop rest (constraints @ '' UNIQUE'')
      else getFieldConstraints_loop rest constraints)"

definition getFieldConstraints :: "FieldDecl \<Rightarrow> string" where
  "getFieldConstraints field = getFieldConstraints_loop (FieldDecl.Decorators field) ''''"

text \<open>
  \<open>getTableName\<close>: the loop returns from inside at the first decorator named
  \<open>table\<close> that has an argument; \<open>None\<close> is the loop running to its end.
\<close>

fun getTableName_loop :: "Decorator list \<Rightarrow> string option" where
  "getTableName_loop [] = None"
| "getTableName_loop (dec # rest) =
     (if Decorator.Name dec = ''table'' \<and> length (Args dec) > 0
      then Some (strings_Trim (Args dec ! 0) [dquote])
      else getTableName_loop rest)"

definition getTableName :: "StructDecl \<Rightarrow> string" where
  "getTableName s =
     (case getTableName_loop (StructDecl.Decorators s) of
        Some name \<Rightarrow> name
      | None \<Rightarrow> strings_ToLower (StructDecl.Name s) @ ''s'')"

subsection \<open>Headers and record types\<close>




subsection \<open>init-table\<close>




subsection \<open>create\<close>










subsection \<open>find-by-id, list-all and delete\<close>









subsection \<open>The demonstration entry point\<close>











subsection \<open>HTML: the data-list table and the create form\<close>






text \<open>The form control that one iteration of the form loop writes for a field.\<close>

definition generateFormHTML_control :: "FieldDecl \<Rightarrow> string" where
  \<open>generateFormHTML_control field =
     (let cType = mapType (FieldDecl.Type field) in
      if cType = ''char*'' then
        (if FieldDecl.Name field = ''description'' then
           ''    offset += sprintf(html + offset, "<textarea name='' @ squote @ FieldDecl.Name field @ ''\' class=\'form-control\' rows=\'3\' required></textarea>'' @ bsl @ ''n");\<newline>''
         else
           ''    offset += sprintf(html + offset, "<input type=\'text\' name='' @ squote @ FieldDecl.Name field @ ''\' class=\'form-control\' required>'' @ bsl @ ''n");\<newline>'')
      else if FieldDecl.Type field = ''bool'' then
        ''    offset += sprintf(html + offset, "<input type=\'checkbox\' name='' @ squote @ FieldDecl.Name field @ ''\' class=\'form-check-input\'>'' @ bsl @ ''n");\<newline>''
      else
        ''    offset += sprintf(html + offset, "<input type=\'number\' name='' @ squote @ FieldDecl.Name field @ ''\' class=\'form-control\' required>'' @ bsl @ ''n");\<newline>'')\<close>




subsection \<open>The request-dispatch function\<close>










subsection \<open>Generate\<close>

text \<open>
  The generator object. Its lists hold pointers, which may be \<open>nil\<close> (\<open>None\<close>).
  \<open>Generate\<close> resets the output builder (\<open>outputText\<close>) and nothing else, so the lists and the flag of an
  earlier call stay.
\<close>

record CGenerator =
  structs :: "StructDecl option list"
  pages :: "PageDecl option list"
  handlers :: "HandlerDecl option list"
  outputText :: string
  hasWeb :: bool


text \<open>The type switch of the collecting loop.\<close>

fun Generate_collect :: "Node list \<Rightarrow> CGenerator \<Rightarrow> CGenerator" where
  \<open>Generate_collect [] g = g\<close>
| \<open>Generate_collect (stmt # rest) g =
     (case stmt of
        StructNode s \<Rightarrow> Generate_collect rest (g\<lparr>structs := structs g @ [s]\<rparr>)
      | PageNode s \<Rightarrow> Generate_collect rest (g\<lparr>pages := pages g @ [s], hasWeb := True\<rparr>)
      | HandlerNode s \<Rightarrow> Generate_collect rest (g\<lparr>handlers := handlers g @ [s], hasWeb := True\<rparr>)
      | _ \<Rightarrow> Generate_collect rest g)\<close>



subsection \<open>The template generator's form data (template_generator.go)\<close>

text \<open>
  The package has a second generator, \<open>TemplateGenerator\<close>, which fills data records
  and renders them with text templates. \<open>prepareHTMLData\<close> computes the records of the
  page template. Its helpers \<open>getTableName\<close>, \<open>mapType\<close>, \<open>mapSQLType\<close> and
  \<open>getFieldConstraints\<close> have the same bodies as the ones above.
\<close>

record FieldData =
  Name :: string
  CType :: string
  SQLType :: string
  Constraints :: string
  Title :: string
  IsBool :: bool
  IsArray :: bool
  IsAutoIncrement :: bool

record FormFieldData =
  Name :: string
  Label :: string
  InputType :: string
  Required :: bool

record HTMLTemplateData =
  PageNameLower :: string
  PageTitle :: string
  HasDataList :: bool
  HasForm :: bool
  StructName :: string
  TableName :: string
  Fields :: "FieldData list"
  FormFields :: "FormFieldData list"

fun prepareHTMLData_isAuto :: "Decorator list \<Rightarrow> bool \<Rightarrow> bool" where
  \<open>prepareHTMLData_isAuto [] isAuto = isAuto\<close>
| \<open>prepareHTMLData_isAuto (dec # rest) isAuto =
     (if Decorator.Name dec = ''autoincrement'' \<or> Decorator.Name dec = ''primary''
      then prepareHTMLData_isAuto rest True
      else prepareHTMLData_isAuto rest isAuto)\<close>

fun prepareHTMLData_required :: "Decorator list \<Rightarrow> bool \<Rightarrow> bool" where
  \<open>prepareHTMLData_required [] required = required\<close>
| \<open>prepareHTMLData_required (dec # rest) required =
     (if Decorator.Name dec = ''required''
      then prepareHTMLData_required rest True
      else prepareHTMLData_required rest required)\<close>

definition prepareHTMLData_inputType :: "FieldDecl \<Rightarrow> string" where
  \<open>prepareHTMLData_inputType field =
     (if FieldDecl.Name field = ''description'' then ''textarea''
      else if FieldDecl.Type field = ''bool'' then ''checkbox''
      else if FieldDecl.Type field = ''int'' then ''number''
      else ''text'')\<close>

text \<open>The loop over the fields: the pair is (\<open>data.Fields\<close>, \<open>data.FormFields\<close>).\<close>

fun prepareHTMLData_fields ::
  "FieldDecl list \<Rightarrow> FieldData list \<times> FormFieldData list \<Rightarrow> FieldData list \<times> FormFieldData list" where
  \<open>prepareHTMLData_fields [] (fs, formFields) = (fs, formFields)\<close>
| \<open>prepareHTMLData_fields (field # rest) (fs, formFields) =
     (if FieldDecl.IsArray field then prepareHTMLData_fields rest (fs, formFields)
      else
        (let cType = mapType (FieldDecl.Type field);
             fs' = fs @
               [\<lparr>FieldData.Name = FieldDecl.Name field,
                 CType = cType,
                 SQLType = mapSQLType (FieldDecl.Type field),
                 Constraints = getFieldConstraints field,
                 Title = strings_Title (FieldDecl.Name field),
                 IsBool = (FieldDecl.Type field = ''bool''),
                 FieldData.IsArray = False,
                 IsAutoIncrement = False\<rparr>];
             isAuto = prepareHTMLData_isAuto (FieldDecl.Decorators field) False
         in
         if \<not> isAuto then
           (let inputType = prepareHTMLData_inputType field;
                required = prepareHTMLData_required (FieldDecl.Decorators field) False
            in prepareHTMLData_fields rest
                 (fs',
                  formFields @
                    [\<lparr>FormFieldData.Name = FieldDecl.Name field,
                      Label = strings_Title (FieldDecl.Name field),
                      InputType = inputType,
                      Required = required\<rparr>]))
         else prepareHTMLData_fields rest (fs', formFields)))\<close>

definition prepareHTMLData :: "PageDecl \<Rightarrow> StructDecl \<Rightarrow> HTMLTemplateData" where
  \<open>prepareHTMLData page s =
   (let tableName = getTableName s;
        (fs, formFields) = prepareHTMLData_fields (StructDecl.Fields s) ([], [])
    in
    \<lparr>PageNameLower = strings_ToLower (PageDecl.Name page),
     PageTitle = PageDecl.Name page,
     HasDataList = True,
     HasForm = True,
     StructName = StructDecl.Name s,
     TableName = tableName,
     HTMLTemplateData.Fields = fs,
     FormFields = formFields\<rparr>)\<close>

section \<open>The tokenizer (pkg/lexer)\<close>

subsection \<open>Tokens\<close>

text \<open>
  \<open>type TokenType string\<close>: a token type is a string, and the constants of the package
  are these strings. The constant \<open>INT\<close> is \<open>INT_LITERAL\<close> here.
\<close>

type_synonym TokenType = string

abbreviation EOF :: TokenType where
  \<open>EOF \<equiv> ''EOF''\<close>

abbreviation ILLEGAL :: TokenType where
  \<open>ILLEGAL \<equiv> ''ILLEGAL''\<close>

abbreviation IDENT :: TokenType where
  \<open>IDENT \<equiv> ''IDENT''\<close>

abbreviation INT_LITERAL :: TokenType where
  \<open>INT_LITERAL \<equiv> ''INT''\<close>

abbreviation FLOAT :: TokenType where
  \<open>FLOAT \<equiv> ''FLOAT''\<close>

abbreviation STRING :: TokenType where
  \<open>STRING \<equiv> ''STRING''\<close>

abbreviation STRUCT :: TokenType where
  \<open>STRUCT \<equiv> ''STRUCT''\<close>

abbreviation INT_TYPE :: TokenType where
  \<open>INT_TYPE \<equiv> ''INT_TYPE''\<close>

abbreviation FLOAT_TYPE :: TokenType where
  \<open>FLOAT_TYPE \<equiv> ''FLOAT_TYPE''\<close>

abbreviation STRING_TYPE :: TokenType where
  \<open>STRING_TYPE \<equiv> ''STRING_TYPE''\<close>

abbreviation BOOL_TYPE :: TokenType where
  \<open>BOOL_TYPE \<equiv> ''BOOL_TYPE''\<close>

abbreviation DATE :: TokenType where
  \<open>DATE \<equiv> ''DATE''\<close>

abbreviation DATETIME :: TokenType where
  \<open>DATETIME \<equiv> ''DATETIME''\<close>

abbreviation IF :: TokenType where
  \<open>IF \<equiv> ''IF''\<close>

abbreviation ELSE :: TokenType where
  \<open>ELSE \<equiv> ''ELSE''\<close>

abbreviation FOR :: TokenType where
  \<open>FOR \<equiv> ''FOR''\<close>

abbreviation WHILE :: TokenType where
  \<open>WHILE \<equiv> ''WHILE''\<close>

abbreviation RETURN :: TokenType where
  \<open>RETURN \<equiv> ''RETURN''\<close>

abbreviation TRUE :: TokenType where
  \<open>TRUE \<equiv> ''TRUE''\<close>

abbreviation FALSE :: TokenType where
  \<open>FALSE \<equiv> ''FALSE''\<close>

abbreviation VOID :: TokenType where
  \<open>VOID \<equiv> ''VOID''\<close>

abbreviation PAGE :: TokenType where
  \<open>PAGE \<equiv> ''PAGE''\<close>

abbreviation SECTION :: TokenType where
  \<open>SECTION \<equiv> ''SECTION''\<close>

abbreviation ROW :: TokenType where
  \<open>ROW \<equiv> ''ROW''\<close>

abbreviation COLUMN :: TokenType where
  \<open>COLUMN \<equiv> ''COLUMN''\<close>

abbreviation FORM :: TokenType where
  \<open>FORM \<equiv> ''FORM''\<close>

abbreviation INPUT :: TokenType where
  \<open>INPUT \<equiv> ''INPUT''\<close>

abbreviation BUTTON :: TokenType where
  \<open>BUTTON \<equiv> ''BUTTON''\<close>

abbreviation DATALIST :: TokenType where
  \<open>DATALIST \<equiv> ''DATALIST''\<close>

abbreviation HANDLER :: TokenType where
  \<open>HANDLER \<equiv> ''HANDLER''\<close>

abbreviation REQUEST :: TokenType where
  \<open>REQUEST \<equiv> ''REQUEST''\<close>

abbreviation RESPONSE :: TokenType where
  \<open>RESPONSE \<equiv> ''RESPONSE''\<close>

abbreviation ASSIGN :: TokenType where
  \<open>ASSIGN \<equiv> ''=''\<close>

abbreviation PLUS :: TokenType where
  \<open>PLUS \<equiv> ''+''\<close>

abbreviation MINUS :: TokenType where
  \<open>MINUS \<equiv> ''-''\<close>

abbreviation ASTERISK :: TokenType where
  \<open>ASTERISK \<equiv> ''*''\<close>

abbreviation SLASH :: TokenType where
  \<open>SLASH \<equiv> ''/''\<close>

abbreviation LT :: TokenType where
  \<open>LT \<equiv> ''<''\<close>

abbreviation GT :: TokenType where
  \<open>GT \<equiv> ''>''\<close>

abbreviation EQ :: TokenType where
  \<open>EQ \<equiv> ''==''\<close>

abbreviation NOT_EQ :: TokenType where
  \<open>NOT_EQ \<equiv> ''!=''\<close>

abbreviation LTE :: TokenType where
  \<open>LTE \<equiv> ''<=''\<close>

abbreviation GTE :: TokenType where
  \<open>GTE \<equiv> ''>=''\<close>

abbreviation AND :: TokenType where
  \<open>AND \<equiv> ''&&''\<close>

abbreviation OR :: TokenType where
  \<open>OR \<equiv> ''||''\<close>

abbreviation NOT :: TokenType where
  \<open>NOT \<equiv> ''!''\<close>

abbreviation COMMA :: TokenType where
  \<open>COMMA \<equiv> '',''\<close>

abbreviation SEMICOLON :: TokenType where
  \<open>SEMICOLON \<equiv> '';''\<close>

abbreviation COLON :: TokenType where
  \<open>COLON \<equiv> '':''\<close>

abbreviation LPAREN :: TokenType where
  \<open>LPAREN \<equiv> ''(''\<close>

abbreviation RPAREN :: TokenType where
  \<open>RPAREN \<equiv> '')''\<close>

abbreviation LBRACE :: TokenType where
  \<open>LBRACE \<equiv> ''{''\<close>

abbreviation RBRACE :: TokenType where
  \<open>RBRACE \<equiv> ''}''\<close>

abbreviation LBRACKET :: TokenType where
  \<open>LBRACKET \<equiv> ''[''\<close>

abbreviation RBRACKET :: TokenType where
  \<open>RBRACKET \<equiv> '']''\<close>

abbreviation AT :: TokenType where
  \<open>AT \<equiv> ''@''\<close>

abbreviation DECORATOR :: TokenType where
  \<open>DECORATOR \<equiv> ''DECORATOR''\<close>

record Token =
  Type :: TokenType
  Literal :: string
  Line :: nat
  Column :: nat

text \<open>The map \<open>keywords\<close>, as the list of its entries.\<close>

definition keywords_map :: "(string \<times> TokenType) list" where
  \<open>keywords_map =
     [(''struct'', STRUCT), (''int'', INT_TYPE), (''float'', FLOAT_TYPE), (''string'', STRING_TYPE),
      (''bool'', BOOL_TYPE), (''date'', DATE), (''datetime'', DATETIME), (''if'', IF),
      (''else'', ELSE), (''for'', FOR), (''while'', WHILE), (''return'', RETURN),
      (''true'', TRUE), (''false'', FALSE), (''void'', VOID), (''Page'', PAGE),
      (''Section'', SECTION), (''Row'', ROW), (''Column'', COLUMN), (''Form'', FORM),
      (''Input'', INPUT), (''Button'', BUTTON), (''DataList'', DATALIST), (''handler'', HANDLER),
      (''Request'', REQUEST), (''Response'', RESPONSE)]\<close>

definition LookupIdent :: "string \<Rightarrow> TokenType" where
  \<open>LookupIdent ident = (case map_of keywords_map ident of Some tok \<Rightarrow> tok | None \<Rightarrow> IDENT)\<close>

subsection \<open>The lexer state and its cursor\<close>

text \<open>
  Positions, lines and columns are Go \<open>int\<close>s that only ever count up from 0 or 1; they are
  natural numbers here. The byte 0 is what \<open>readChar\<close> stores at the end of the input.
\<close>

record Lexer =
  input :: string
  position :: nat
  readPosition :: nat
  ch :: char
  line :: nat
  column :: nat

abbreviation NUL :: char where
  "NUL \<equiv> CHR 0x00"

definition readChar :: "Lexer \<Rightarrow> Lexer" where
  \<open>readChar l =
     (let c = (if readPosition l \<ge> length (input l) then NUL else input l ! readPosition l);
          l1 = l\<lparr>ch := c, position := readPosition l, readPosition := readPosition l + 1,
                 column := column l + 1\<rparr>
      in if c = CHR ''\<newline>'' then l1\<lparr>line := line l1 + 1, column := 0\<rparr> else l1)\<close>

definition peekChar :: "Lexer \<Rightarrow> char" where
  \<open>peekChar l = (if readPosition l \<ge> length (input l) then NUL else input l ! readPosition l)\<close>

definition New_Lexer :: "string \<Rightarrow> Lexer" where
  \<open>New_Lexer inp =
     readChar \<lparr>input = inp, position = 0, readPosition = 0, ch = NUL, line = 1, column = 0\<rparr>\<close>

text \<open>
  \<open>isLetter\<close> calls \<open>unicode.IsLetter\<close> on the byte taken as a code point, so the letters
  of Latin-1 count: U+00AA, U+00B5, U+00BA, U+00C0 to U+00D6, U+00D8 to U+00F6 and U+00F8
  to U+00FF.
\<close>

definition unicode_IsLetter :: "char \<Rightarrow> bool" where
  \<open>unicode_IsLetter c =
     (let n = (of_char c :: nat) in
      (65 \<le> n \<and> n \<le> 90) \<or> (97 \<le> n \<and> n \<le> 122) \<or> n = 170 \<or> n = 181 \<or> n = 186
      \<or> (192 \<le> n \<and> n \<le> 214) \<or> (216 \<le> n \<and> n \<le> 246) \<or> (248 \<le> n \<and> n \<le> 255))\<close>

definition isLetter :: "char \<Rightarrow> bool" where
  \<open>isLetter c = (unicode_IsLetter c \<or> c = CHR ''_'')\<close>

definition isDigit :: "char \<Rightarrow> bool" where
  \<open>isDigit c = ((48::nat) \<le> of_char c \<and> (of_char c :: nat) \<le> 57)\<close>

text \<open>
  \<open>string(b)\<close> for a byte \<open>b\<close> is the UTF-8 encoding of the code point \<open>b\<close>: one byte
  below 128, two bytes from 128 on.
\<close>

definition string_of_byte :: "char \<Rightarrow> string" where
  \<open>string_of_byte c =
     (let n = (of_char c :: nat) in
      if n < 128 then [c] else [char_of (192 + n div 64), char_of (128 + n mod 64)])\<close>

text \<open>\<open>s[a:b]\<close>; Go panics unless \<open>a \<le> b \<le> len(s)\<close> (see \<open>slice_in_range\<close>).\<close>

definition slice :: "string \<Rightarrow> nat \<Rightarrow> nat \<Rightarrow> string" where
  \<open>slice s a b = take (b - a) (drop a s)\<close>

definition slice_in_range :: "string \<Rightarrow> nat \<Rightarrow> nat \<Rightarrow> bool" where
  \<open>slice_in_range s a b = (a \<le> b \<and> b \<le> length s)\<close>

text \<open>
  The measure of every loop of the tokenizer: the bytes not yet read, and one more while
  the current byte is not the end mark.
\<close>

definition lexer_measure :: "Lexer \<Rightarrow> nat" where
  \<open>lexer_measure l =
     (length (input l) + 1 - readPosition l) + (if ch l = NUL then 0 else 1)\<close>

lemma lexer_measure_readChar_le: "lexer_measure (readChar l) \<le> lexer_measure l"
  by (auto simp: lexer_measure_def readChar_def Let_def)

lemma lexer_measure_readChar_less: "ch l \<noteq> NUL \<Longrightarrow> lexer_measure (readChar l) < lexer_measure l"
  by (auto simp: lexer_measure_def readChar_def Let_def)

lemma lexer_measure_readChar2_less:
  "ch l \<noteq> NUL \<Longrightarrow> lexer_measure (readChar (readChar l)) < lexer_measure l"
  using lexer_measure_readChar_le [of "readChar l"] lexer_measure_readChar_less [of l] by simp

lemma input_readChar [simp]: "input (readChar l) = input l"
  by (simp add: readChar_def Let_def)

subsection \<open>The loops of the tokenizer\<close>

function skipWhitespace :: "Lexer \<Rightarrow> Lexer" where
  \<open>skipWhitespace l =
     (if ch l = CHR '' '' \<or> ch l = CHR 0x09 \<or> ch l = CHR ''\<newline>'' \<or> ch l = CHR 0x0D
      then skipWhitespace (readChar l) else l)\<close>
  by pat_completeness auto
termination
  by (relation "measure lexer_measure") (auto intro: lexer_measure_readChar_less)

declare skipWhitespace.simps [simp del]

text \<open>The loop of \<open>skipLineComment\<close>, after the two bytes \<open>//\<close> are skipped.\<close>

function skipLineComment_loop :: "Lexer \<Rightarrow> Lexer" where
  \<open>skipLineComment_loop l =
     (if ch l \<noteq> CHR ''\<newline>'' \<and> ch l \<noteq> NUL then skipLineComment_loop (readChar l) else l)\<close>
  by pat_completeness auto
termination
  by (relation "measure lexer_measure") (auto intro: lexer_measure_readChar_less)

declare skipLineComment_loop.simps [simp del]

definition skipLineComment :: "Lexer \<Rightarrow> Lexer" where
  \<open>skipLineComment l = skipLineComment_loop (readChar (readChar l))\<close>

function skipBlockComment_loop :: "Lexer \<Rightarrow> Lexer" where
  \<open>skipBlockComment_loop l =
     (if ch l = NUL then l
      else if ch l = CHR ''*'' \<and> peekChar l = CHR ''/'' then readChar (readChar l)
      else skipBlockComment_loop (readChar l))\<close>
  by pat_completeness auto
termination
  by (relation "measure lexer_measure") (auto intro: lexer_measure_readChar_less)

declare skipBlockComment_loop.simps [simp del]

definition skipBlockComment :: "Lexer \<Rightarrow> Lexer" where
  \<open>skipBlockComment l = skipBlockComment_loop (readChar (readChar l))\<close>

function readIdentifier_loop :: "Lexer \<Rightarrow> Lexer" where
  \<open>readIdentifier_loop l =
     (if isLetter (ch l) \<or> isDigit (ch l) \<or> ch l = CHR ''_''
      then readIdentifier_loop (readChar l) else l)\<close>
  by pat_completeness auto
termination
  by (relation "measure lexer_measure")
     (auto intro!: lexer_measure_readChar_less simp: isLetter_def unicode_IsLetter_def isDigit_def)

declare readIdentifier_loop.simps [simp del]

definition readIdentifier :: "Lexer \<Rightarrow> string \<times> Lexer" where
  \<open>readIdentifier l =
     (let pos = position l;
          l1 = readIdentifier_loop l
      in (slice (input l1) pos (position l1), l1))\<close>

function readNumber_digits :: "Lexer \<Rightarrow> Lexer" where
  \<open>readNumber_digits l = (if isDigit (ch l) then readNumber_digits (readChar l) else l)\<close>
  by pat_completeness auto
termination
  by (relation "measure lexer_measure")
     (auto intro!: lexer_measure_readChar_less simp: isDigit_def)

declare readNumber_digits.simps [simp del]

definition readNumber :: "Lexer \<Rightarrow> (string \<times> bool) \<times> Lexer" where
  \<open>readNumber l =
     (let pos = position l;
          l1 = readNumber_digits l
      in if ch l1 = CHR ''.'' \<and> isDigit (peekChar l1) then
           (let l2 = readNumber_digits (readChar l1)
            in ((slice (input l2) pos (position l2), True), l2))
         else ((slice (input l1) pos (position l1), False), l1))\<close>

function readString_loop :: "Lexer \<Rightarrow> Lexer" where
  \<open>readString_loop l =
     (if ch l \<noteq> dquote \<and> ch l \<noteq> NUL then
        (if ch l = CHR 0x5C \<and> peekChar l = dquote
         then readString_loop (readChar (readChar l))
         else readString_loop (readChar l))
      else l)\<close>
  by pat_completeness auto
termination
  by (relation "measure lexer_measure")
     (auto intro: lexer_measure_readChar_less lexer_measure_readChar2_less)

declare readString_loop.simps [simp del]

definition readString :: "Lexer \<Rightarrow> string \<times> Lexer" where
  \<open>readString l =
     (let l1 = readChar l;
          pos = position l1;
          l2 = readString_loop l1;
          str = slice (input l2) pos (position l2)
      in (str, readChar l2))\<close>

subsection \<open>NextToken\<close>

text \<open>
  A token of one byte: the literal is \<open>string(l.ch)\<close>, and the byte is consumed by the
  \<open>readChar\<close> at the end of \<open>NextToken\<close>. The line and the column of every token are
  those of the lexer after \<open>skipWhitespace\<close>.
\<close>

definition oneByte :: "TokenType \<Rightarrow> Lexer \<Rightarrow> Token \<times> Lexer" where
  \<open>oneByte t l =
     (\<lparr>Token.Type = t, Literal = string_of_byte (ch l), Line = line l, Column = column l\<rparr>,
      readChar l)\<close>

text \<open>A token of two bytes: \<open>ch := l.ch; l.readChar(); tok.Literal = string(ch) + string(l.ch)\<close>.\<close>

definition twoBytes :: "TokenType \<Rightarrow> Lexer \<Rightarrow> Token \<times> Lexer" where
  \<open>twoBytes t l =
     (let c = ch l;
          l1 = readChar l
      in (\<lparr>Token.Type = t, Literal = string_of_byte c @ string_of_byte (ch l1),
           Line = line l, Column = column l\<rparr>,
          readChar l1))\<close>

text \<open>The \<open>switch\<close> of \<open>NextToken\<close>, for a lexer that stands on the first byte of a token.\<close>

definition NextToken_switch :: "Lexer \<Rightarrow> Token \<times> Lexer" where
  \<open>NextToken_switch l =
     (let c = ch l in
      if c = CHR ''@'' then oneByte AT l
      else if c = CHR ''='' then (if peekChar l = CHR ''='' then twoBytes EQ l else oneByte ASSIGN l)
      else if c = CHR ''+'' then oneByte PLUS l
      else if c = CHR ''-'' then oneByte MINUS l
      else if c = CHR ''*'' then oneByte ASTERISK l
      else if c = CHR ''/'' then oneByte SLASH l
      else if c = CHR ''<'' then (if peekChar l = CHR ''='' then twoBytes LTE l else oneByte LT l)
      else if c = CHR ''>'' then (if peekChar l = CHR ''='' then twoBytes GTE l else oneByte GT l)
      else if c = CHR ''!'' then (if peekChar l = CHR ''='' then twoBytes NOT_EQ l else oneByte NOT l)
      else if c = CHR ''&'' then (if peekChar l = CHR ''&'' then twoBytes AND l else oneByte ILLEGAL l)
      else if c = CHR ''|'' then (if peekChar l = CHR ''|'' then twoBytes OR l else oneByte ILLEGAL l)
      else if c = CHR '','' then oneByte COMMA l
      else if c = CHR '';'' then oneByte SEMICOLON l
      else if c = CHR '':'' then oneByte COLON l
      else if c = CHR ''('' then oneByte LPAREN l
      else if c = CHR '')'' then oneByte RPAREN l
      else if c = CHR ''{'' then oneByte LBRACE l
      else if c = CHR ''}'' then oneByte RBRACE l
      else if c = CHR ''['' then oneByte LBRACKET l
      else if c = CHR '']'' then oneByte RBRACKET l
      else if c = dquote then
        (let (str, l1) = readString l
         in (\<lparr>Token.Type = STRING, Literal = str, Line = line l, Column = column l\<rparr>, l1))
      else if c = NUL then
        (\<lparr>Token.Type = EOF, Literal = [], Line = line l, Column = column l\<rparr>, readChar l)
      else if isLetter c then
        (let (lit, l1) = readIdentifier l
         in (\<lparr>Token.Type = LookupIdent lit, Literal = lit, Line = line l, Column = column l\<rparr>, l1))
      else if isDigit c then
        (let ((literal, isFloat), l1) = readNumber l
         in (\<lparr>Token.Type = (if isFloat then FLOAT else INT_LITERAL), Literal = literal,
              Line = line l, Column = column l\<rparr>, l1))
      else oneByte ILLEGAL l)\<close>

lemma lexer_measure_skipWhitespace: "lexer_measure (skipWhitespace l) \<le> lexer_measure l"
proof (induction l rule: skipWhitespace.induct)
  case (1 l)
  show ?case
    using 1 lexer_measure_readChar_le [of l]
    by (subst skipWhitespace.simps) (auto simp del: One_nat_def)
qed

lemma lexer_measure_skipLineComment_loop: "lexer_measure (skipLineComment_loop l) \<le> lexer_measure l"
proof (induction l rule: skipLineComment_loop.induct)
  case (1 l)
  show ?case
    using 1 lexer_measure_readChar_le [of l]
    by (subst skipLineComment_loop.simps) auto
qed

lemma lexer_measure_skipBlockComment_loop: "lexer_measure (skipBlockComment_loop l) \<le> lexer_measure l"
proof (induction l rule: skipBlockComment_loop.induct)
  case (1 l)
  show ?case
    using 1 lexer_measure_readChar_le [of l] lexer_measure_readChar_le [of "readChar l"]
    by (subst skipBlockComment_loop.simps) auto
qed

lemma lexer_measure_skipLineComment:
  "ch l \<noteq> NUL \<Longrightarrow> lexer_measure (skipLineComment l) < lexer_measure l"
  using lexer_measure_skipLineComment_loop [of "readChar (readChar l)"]
    lexer_measure_readChar2_less [of l]
  by (simp add: skipLineComment_def)

lemma lexer_measure_skipBlockComment:
  "ch l \<noteq> NUL \<Longrightarrow> lexer_measure (skipBlockComment l) < lexer_measure l"
  using lexer_measure_skipBlockComment_loop [of "readChar (readChar l)"]
    lexer_measure_readChar2_less [of l]
  by (simp add: skipBlockComment_def)

text \<open>
  \<open>NextToken\<close>: after a comment it calls itself. The recursion ends because a comment
  consumes at least its two opening bytes.
\<close>

function NextToken :: "Lexer \<Rightarrow> Token \<times> Lexer" where
  \<open>NextToken l0 =
     (let l = skipWhitespace l0 in
      if ch l = CHR ''/'' then
        (if peekChar l = CHR ''/'' then NextToken (skipLineComment l)
         else if peekChar l = CHR ''*'' then NextToken (skipBlockComment l)
         else NextToken_switch l)
      else NextToken_switch l)\<close>
  by pat_completeness auto
termination
proof (relation "measure lexer_measure")
  show "wf (measure lexer_measure)" by simp
next
  fix l0 l
  assume "l = skipWhitespace l0" "ch l = CHR ''/''"
  then show "(skipLineComment l, l0) \<in> measure lexer_measure"
    using lexer_measure_skipLineComment [of l] lexer_measure_skipWhitespace [of l0] by simp
next
  fix l0 l
  assume "l = skipWhitespace l0" "ch l = CHR ''/''"
  then show "(skipBlockComment l, l0) \<in> measure lexer_measure"
    using lexer_measure_skipBlockComment [of l] lexer_measure_skipWhitespace [of l0] by simp
qed

declare NextToken.simps [simp del]

subsection \<open>Every token but the end token consumes input\<close>

lemma lexer_measure_readIdentifier_loop: "lexer_measure (readIdentifier_loop l) \<le> lexer_measure l"
proof (induction l rule: readIdentifier_loop.induct)
  case (1 l)
  show ?case
    using 1 lexer_measure_readChar_le [of l]
    by (subst readIdentifier_loop.simps) auto
qed

lemma lexer_measure_readNumber_digits: "lexer_measure (readNumber_digits l) \<le> lexer_measure l"
proof (induction l rule: readNumber_digits.induct)
  case (1 l)
  show ?case
    using 1 lexer_measure_readChar_le [of l]
    by (subst readNumber_digits.simps) auto
qed

lemma lexer_measure_readString_loop: "lexer_measure (readString_loop l) \<le> lexer_measure l"
proof (induction l rule: readString_loop.induct)
  case (1 l)
  show ?case
    using 1 lexer_measure_readChar_le [of l] lexer_measure_readChar_le [of "readChar l"]
    by (subst readString_loop.simps) auto
qed

lemma isLetter_not_NUL: "isLetter c \<Longrightarrow> c \<noteq> NUL"
  by (auto simp: isLetter_def unicode_IsLetter_def)

lemma isDigit_not_NUL: "isDigit c \<Longrightarrow> c \<noteq> NUL"
  by (auto simp: isDigit_def)

lemma lexer_measure_readIdentifier:
  "isLetter (ch l) \<Longrightarrow> lexer_measure (snd (readIdentifier l)) < lexer_measure l"
  using lexer_measure_readIdentifier_loop [of "readChar l"]
    lexer_measure_readChar_less [of l] isLetter_not_NUL [of "ch l"]
  by (simp add: readIdentifier_def Let_def readIdentifier_loop.simps [of l])

lemma lexer_measure_readNumber:
  "isDigit (ch l) \<Longrightarrow> lexer_measure (snd (readNumber l)) < lexer_measure l"
proof -
  assume d: "isDigit (ch l)"
  have a: "lexer_measure (readNumber_digits l) < lexer_measure l"
    using d lexer_measure_readNumber_digits [of "readChar l"]
      lexer_measure_readChar_less [of l] isDigit_not_NUL [of "ch l"]
    by (simp add: readNumber_digits.simps [of l])
  have b: "lexer_measure (readNumber_digits (readChar (readNumber_digits l)))
             \<le> lexer_measure (readNumber_digits l)"
    using lexer_measure_readNumber_digits [of "readChar (readNumber_digits l)"]
      lexer_measure_readChar_le [of "readNumber_digits l"]
    by simp
  show ?thesis using a b by (simp add: readNumber_def Let_def)
qed

lemma lexer_measure_readString:
  "ch l \<noteq> NUL \<Longrightarrow> lexer_measure (snd (readString l)) < lexer_measure l"
  using lexer_measure_readString_loop [of "readChar l"] lexer_measure_readChar_less [of l]
    lexer_measure_readChar_le [of "readString_loop (readChar l)"]
  by (simp add: readString_def Let_def)

lemma oneByte_progress:
  "ch l \<noteq> NUL \<Longrightarrow> lexer_measure (snd (oneByte t l)) < lexer_measure l"
  by (simp add: oneByte_def lexer_measure_readChar_less)

lemma twoBytes_progress:
  "ch l \<noteq> NUL \<Longrightarrow> lexer_measure (snd (twoBytes t l)) < lexer_measure l"
  by (simp add: twoBytes_def Let_def lexer_measure_readChar2_less)

lemma oneByte_Type [simp]: "Token.Type (fst (oneByte t l)) = t"
  by (simp add: oneByte_def)

lemma twoBytes_Type [simp]: "Token.Type (fst (twoBytes t l)) = t"
  by (simp add: twoBytes_def Let_def)

text \<open>
  The switch: a token that is not \<open>EOF\<close> strictly lowers the measure, and \<open>EOF\<close> never
  raises it.
\<close>

lemma NextToken_switch_progress:
  "lexer_measure (snd (NextToken_switch l))
     + (if Token.Type (fst (NextToken_switch l)) = EOF then 0 else 1) \<le> lexer_measure l"
proof (cases "ch l = NUL")
  case True
  then show ?thesis
    using lexer_measure_readChar_le [of l]
    by (simp add: NextToken_switch_def Let_def)
next
  case False
  have "lexer_measure (snd (NextToken_switch l)) < lexer_measure l"
    unfolding NextToken_switch_def Let_def
    using False oneByte_progress [of l] twoBytes_progress [of l]
      lexer_measure_readString [of l] lexer_measure_readIdentifier [of l]
      lexer_measure_readNumber [of l]
    by (simp add: case_prod_beta)
  then show ?thesis by simp
qed

lemma NextToken_progress:
  "lexer_measure (snd (NextToken l))
     + (if Token.Type (fst (NextToken l)) = EOF then 0 else 1) \<le> lexer_measure l"
proof (induction l rule: NextToken.induct)
  case (1 l0)
  define l where "l = skipWhitespace l0"
  have ws: "lexer_measure l \<le> lexer_measure l0"
    by (simp add: l_def lexer_measure_skipWhitespace)
  consider (line) "ch l = CHR ''/''" "peekChar l = CHR ''/''"
    | (block) "ch l = CHR ''/''" "peekChar l \<noteq> CHR ''/''" "peekChar l = CHR ''*''"
    | (switch) "\<not> (ch l = CHR ''/'' \<and> (peekChar l = CHR ''/'' \<or> peekChar l = CHR ''*''))"
    by blast
  then show ?case
  proof cases
    case line
    then have eq: "NextToken l0 = NextToken (skipLineComment l)"
      by (subst NextToken.simps) (simp add: l_def Let_def)
    have "lexer_measure (skipLineComment l) < lexer_measure l"
      using line by (intro lexer_measure_skipLineComment) simp
    then show ?thesis
      using "1.IH"(1) [OF l_def line] ws by (simp add: eq)
  next
    case block
    then have eq: "NextToken l0 = NextToken (skipBlockComment l)"
      by (subst NextToken.simps) (simp add: l_def Let_def)
    have "lexer_measure (skipBlockComment l) < lexer_measure l"
      using block by (intro lexer_measure_skipBlockComment) simp
    then show ?thesis
      using "1.IH"(2) [OF l_def block] ws by (simp add: eq)
  next
    case switch
    then have eq: "NextToken l0 = NextToken_switch l"
      by (subst NextToken.simps) (auto simp add: l_def Let_def)
    show ?thesis
      using NextToken_switch_progress [of l] ws by (simp add: eq)
  qed
qed

subsection \<open>The states the tokenizer reaches, and the specification of a string literal\<close>

text \<open>
  Every state that \<open>readChar\<close> leaves has the read position one after the position, and
  the current byte is the byte of the input at the position, or the end mark past the end.
\<close>

definition lexer_wf :: "Lexer \<Rightarrow> bool" where
  \<open>lexer_wf l =
     (readPosition l = position l + 1
      \<and> ch l = (if position l < length (input l) then input l ! position l else NUL))\<close>

text \<open>
  The slice that the switch of \<open>NextToken\<close> takes at \<open>l\<close> is in range, so the slice
  expression does not panic.
\<close>

definition NextToken_switch_in_range :: "Lexer \<Rightarrow> bool" where
  \<open>NextToken_switch_in_range l =
     (if ch l = dquote then
        slice_in_range (input l) (position (readChar l)) (position (readString_loop (readChar l)))
      else if isLetter (ch l) then
        slice_in_range (input l) (position l) (position (readIdentifier_loop l))
      else if isDigit (ch l) then
        (let l1 = readNumber_digits l in
         if ch l1 = CHR ''.'' \<and> isDigit (peekChar l1)
         then slice_in_range (input l) (position l) (position (readNumber_digits (readChar l1)))
         else slice_in_range (input l) (position l) (position l1))
      else True)\<close>

text \<open>
  The specification of the body of a string literal, on the text that follows the opening
  quote: the number of bytes up to the first double quote that is not right after a
  backslash that escapes it, or up to the end mark or the end of the text. A backslash
  followed by a double quote counts two bytes and escapes the quote.
\<close>

fun string_span :: "string \<Rightarrow> nat" where
  \<open>string_span [] = 0\<close>
| \<open>string_span (c # cs) =
     (if c = dquote \<or> c = NUL then 0
      else if c = CHR 0x5C \<and> cs \<noteq> [] \<and> hd cs = dquote then 2 + string_span (tl cs)
      else 1 + string_span cs)\<close>

section \<open>The parser (pkg/parser)\<close>

subsection \<open>The parser state\<close>

text \<open>The member \<open>l\<close> of the Go struct, the lexer, is \<open>lex\<close> here.\<close>

record Parser =
  lex :: Lexer
  errors :: "string list"
  curToken :: Token
  peekToken :: Token

definition nextToken :: "Parser \<Rightarrow> Parser" where
  \<open>nextToken p =
     (let (tok, l') = NextToken (lex p)
      in p\<lparr>curToken := peekToken p, peekToken := tok, lex := l'\<rparr>)\<close>

text \<open>The zero value of \<open>Token\<close>, which both tokens hold before the first read.\<close>

definition zero_Token :: Token where
  \<open>zero_Token = \<lparr>Token.Type = [], Literal = [], Line = 0, Column = 0\<rparr>\<close>

definition New_Parser :: "Lexer \<Rightarrow> Parser" where
  \<open>New_Parser l =
     nextToken (nextToken \<lparr>lex = l, errors = [], curToken = zero_Token, peekToken = zero_Token\<rparr>)\<close>

definition peekError :: "Parser \<Rightarrow> TokenType \<Rightarrow> Parser" where
  \<open>peekError p t =
     (let msg = ''Line '' @ itoa (Line (peekToken p)) @ '':'' @ itoa (Column (peekToken p))
                @ '': expected next token to be '' @ t @ '', got '' @ Token.Type (peekToken p)
                @ '' instead''
      in p\<lparr>errors := errors p @ [msg]\<rparr>)\<close>

definition curTokenIs :: "Parser \<Rightarrow> TokenType \<Rightarrow> bool" where
  \<open>curTokenIs p t = (Token.Type (curToken p) = t)\<close>

definition peekTokenIs :: "Parser \<Rightarrow> TokenType \<Rightarrow> bool" where
  \<open>peekTokenIs p t = (Token.Type (peekToken p) = t)\<close>

definition expectPeek :: "Parser \<Rightarrow> TokenType \<Rightarrow> bool \<times> Parser" where
  \<open>expectPeek p t = (if peekTokenIs p t then (True, nextToken p) else (False, peekError p t))\<close>

text \<open>
  The measure of every loop of the parser: what the lexer has left, and one for each of
  the two tokens held that is not \<open>EOF\<close>.
\<close>

definition parser_measure :: "Parser \<Rightarrow> nat" where
  \<open>parser_measure p =
     lexer_measure (lex p)
     + (if Token.Type (peekToken p) = EOF then 0 else 1)
     + (if Token.Type (curToken p) = EOF then 0 else 1)\<close>

lemma parser_measure_nextToken_le: "parser_measure (nextToken p) \<le> parser_measure p"
  using NextToken_progress [of "lex p"]
  by (simp add: parser_measure_def nextToken_def case_prod_beta)

lemma parser_measure_nextToken_less:
  "\<not> curTokenIs p EOF \<Longrightarrow> parser_measure (nextToken p) < parser_measure p"
  using NextToken_progress [of "lex p"]
  by (simp add: parser_measure_def nextToken_def case_prod_beta curTokenIs_def)

lemma parser_measure_peekError [simp]: "parser_measure (peekError p t) = parser_measure p"
  by (simp add: parser_measure_def peekError_def Let_def)

lemma curToken_peekError [simp]: "curToken (peekError p t) = curToken p"
  by (simp add: peekError_def Let_def)

lemma parser_measure_errors_update [simp]:
  "parser_measure (p\<lparr>errors := e\<rparr>) = parser_measure p"
  by (simp add: parser_measure_def)

lemma curTokenIs_errors_update [simp]: "curTokenIs (p\<lparr>errors := e\<rparr>) t = curTokenIs p t"
  by (simp add: curTokenIs_def)

lemma parser_measure_expectPeek_le: "parser_measure (snd (expectPeek p t)) \<le> parser_measure p"
  by (simp add: expectPeek_def parser_measure_nextToken_le)

text \<open>
  A step of a construct \<open>advances\<close> from \<open>p\<close> to \<open>p'\<close> when it does not raise the
  measure and either lowers it or leaves a current token that is not \<open>EOF\<close>: then the
  \<open>nextToken\<close> that a loop does after the construct ends below where the loop began.
\<close>

definition advances :: "Parser \<Rightarrow> Parser \<Rightarrow> bool" where
  \<open>advances p p' =
     (parser_measure p' \<le> parser_measure p
      \<and> (parser_measure p' < parser_measure p \<or> \<not> curTokenIs p' EOF))\<close>

lemma advances_nextToken:
  "advances p p' \<Longrightarrow> parser_measure (nextToken p') < parser_measure p"
  using parser_measure_nextToken_le [of p'] parser_measure_nextToken_less [of p']
  by (auto simp: advances_def)

subsection \<open>Decorators\<close>

text \<open>
  The argument loop of \<open>parseDecorators\<close>, for the decorator under construction.
  \<open>isLiteral\<close> is the test of its first \<open>if\<close>.
\<close>

definition isLiteral :: "Parser \<Rightarrow> bool" where
  \<open>isLiteral p =
     (curTokenIs p STRING \<or> curTokenIs p INT_LITERAL \<or> curTokenIs p FLOAT \<or> curTokenIs p IDENT)\<close>

definition parseDecorators_arg :: "Parser \<Rightarrow> Decorator \<Rightarrow> Decorator \<times> Parser" where
  \<open>parseDecorators_arg p dec =
     (if isLiteral p then
        (let arg = Literal (curToken p);
             p1 = nextToken p;
             (dec', p2) =
               (if curTokenIs p1 COLON then
                  (let p1a = nextToken p1;
                       val = Literal (curToken p1a)
                   in (dec\<lparr>KVArgs := (KVArgs dec)(arg \<mapsto> val)\<rparr>, nextToken p1a))
                else (dec\<lparr>Args := Args dec @ [arg]\<rparr>, p1))
         in if curTokenIs p2 COMMA then (dec', nextToken p2) else (dec', p2))
      else (dec, nextToken p))\<close>

lemma parseDecorators_arg_less:
  "\<not> curTokenIs p EOF \<Longrightarrow> parser_measure (snd (parseDecorators_arg p dec)) < parser_measure p"
proof -
  assume c: "\<not> curTokenIs p EOF"
  have 1: "parser_measure (nextToken p) < parser_measure p"
    using c by (rule parser_measure_nextToken_less)
  have 2: "parser_measure (nextToken (nextToken p)) < parser_measure p"
    using 1 parser_measure_nextToken_le [of "nextToken p"] by simp
  have 3: "parser_measure (nextToken (nextToken (nextToken p))) < parser_measure p"
    using 2 parser_measure_nextToken_le [of "nextToken (nextToken p)"] by simp
  have 4: "parser_measure (nextToken (nextToken (nextToken (nextToken p)))) < parser_measure p"
    using 3 parser_measure_nextToken_le [of "nextToken (nextToken (nextToken p))"] by simp
  show ?thesis
    using 1 2 3 4 by (simp add: parseDecorators_arg_def Let_def case_prod_beta)
qed

function parseDecorators_args :: "Parser \<Rightarrow> Decorator \<Rightarrow> Decorator \<times> Parser" where
  \<open>parseDecorators_args p dec =
     (if \<not> curTokenIs p RPAREN \<and> \<not> curTokenIs p EOF then
        (let (dec', p') = parseDecorators_arg p dec in parseDecorators_args p' dec')
      else (dec, p))\<close>
  by pat_completeness auto
termination
proof (relation "measure (\<lambda>(p, dec). parser_measure p)")
  show "wf (measure (\<lambda>(p, dec). parser_measure p))" by simp
next
  fix p dec x dec' p'
  assume "\<not> curTokenIs p RPAREN \<and> \<not> curTokenIs p EOF"
    and "x = parseDecorators_arg p dec" and "(dec', p') = x"
  then show "((p', dec'), (p, dec)) \<in> measure (\<lambda>(p, dec). parser_measure p)"
    using parseDecorators_arg_less [of p dec] by (metis case_prod_conv in_measure snd_conv)
qed

declare parseDecorators_args.simps [simp del]

lemma parser_measure_parseDecorators_args:
  "parser_measure (snd (parseDecorators_args p dec)) \<le> parser_measure p"
proof (induction p dec rule: parseDecorators_args.induct)
  case (1 p dec)
  show ?case
  proof (cases "\<not> curTokenIs p RPAREN \<and> \<not> curTokenIs p EOF")
    case True
    obtain dec' p' where s: "parseDecorators_arg p dec = (dec', p')"
      by (cases "parseDecorators_arg p dec")
    have "parser_measure p' < parser_measure p"
      using parseDecorators_arg_less [of p dec] True s by simp
    moreover have "parser_measure (snd (parseDecorators_args p' dec')) \<le> parser_measure p'"
      using "1.IH" [OF True refl s [symmetric]] .
    ultimately show ?thesis
      using True s by (subst parseDecorators_args.simps) simp
  next
    case False
    then show ?thesis by (subst parseDecorators_args.simps) auto
  qed
qed

text \<open>
  One round of the outer loop, entered with the current token \<open>@\<close>. The result is the
  decorator to append (\<open>None\<close>: nothing is appended), whether the loop goes on
  (\<open>False\<close>: the function returns from inside the loop), and the parser.
\<close>

definition parseDecorators_one :: "Parser \<Rightarrow> Decorator option \<times> bool \<times> Parser" where
  \<open>parseDecorators_one p =
     (let p1 = nextToken p in
      if \<not> curTokenIs p1 IDENT then (None, False, p1)
      else
        (let dec = \<lparr>Decorator.Name = Literal (curToken p1), Args = [], KVArgs = Map.empty\<rparr>;
             p2 = nextToken p1
         in if curTokenIs p2 LPAREN then
              (let (dec', p3) = parseDecorators_args (nextToken p2) dec in
               if \<not> curTokenIs p3 RPAREN then
                 (None, False,
                  p3\<lparr>errors := errors p3 @
                     [''Line '' @ itoa (Line (curToken p3)) @ '':'' @ itoa (Column (curToken p3))
                      @ '': expected \')\' after decorator arguments'']\<rparr>)
               else (Some dec', True, nextToken p3))
            else (Some dec, True, p2)))\<close>

lemma parseDecorators_one_less:
  "\<not> curTokenIs p EOF \<Longrightarrow>
     parser_measure (snd (snd (parseDecorators_one p))) < parser_measure p"
proof -
  assume c: "\<not> curTokenIs p EOF"
  define p1 where "p1 = nextToken p"
  define p2 where "p2 = nextToken p1"
  have 1: "parser_measure p1 < parser_measure p"
    using c by (simp add: p1_def parser_measure_nextToken_less)
  have 2: "parser_measure p2 < parser_measure p"
    using 1 parser_measure_nextToken_le [of p1] by (simp add: p2_def)
  have 3: "parser_measure (snd (parseDecorators_args (nextToken p2) dec)) < parser_measure p" for dec
    using 2 parser_measure_parseDecorators_args [of "nextToken p2" dec]
      parser_measure_nextToken_le [of p2] by simp
  have 4: "parser_measure (nextToken (snd (parseDecorators_args (nextToken p2) dec)))
             < parser_measure p" for dec
    using 3 [of dec] parser_measure_nextToken_le [of "snd (parseDecorators_args (nextToken p2) dec)"]
    by simp
  show ?thesis
    using 1 2 3 4
    by (simp add: parseDecorators_one_def Let_def case_prod_beta p1_def [symmetric]
          p2_def [symmetric])
qed

function parseDecorators_loop :: "Parser \<Rightarrow> Decorator list \<Rightarrow> Decorator list \<times> Parser" where
  \<open>parseDecorators_loop p decorators =
     (if curTokenIs p AT then
        (let (dec, continue, p') = parseDecorators_one p;
             decorators' = (case dec of None \<Rightarrow> decorators | Some d \<Rightarrow> decorators @ [d])
         in if continue then parseDecorators_loop p' decorators' else (decorators', p'))
      else (decorators, p))\<close>
  by pat_completeness auto
termination
proof (relation "measure (\<lambda>(p, ds). parser_measure p)")
  show "wf (measure (\<lambda>(p, ds). parser_measure p))" by simp
next
  fix p decorators x dec y continue p' decorators'
  assume at: "curTokenIs p AT" and x: "x = parseDecorators_one p" and y: "(dec, y) = x"
    and z: "(continue, p') = y"
  have "\<not> curTokenIs p EOF" using at by (simp add: curTokenIs_def)
  then have "parser_measure (snd (snd (parseDecorators_one p))) < parser_measure p"
    by (rule parseDecorators_one_less)
  moreover have "snd (snd (parseDecorators_one p)) = p'"
    using x y z by (metis snd_conv)
  ultimately show "((p', decorators'), (p, decorators)) \<in> measure (\<lambda>(p, ds). parser_measure p)"
    by simp
qed

declare parseDecorators_loop.simps [simp del]

definition parseDecorators :: "Parser \<Rightarrow> Decorator list \<times> Parser" where
  \<open>parseDecorators p = parseDecorators_loop p []\<close>

lemma parser_measure_parseDecorators_loop:
  "parser_measure (snd (parseDecorators_loop p ds)) \<le> parser_measure p"
proof (induction p ds rule: parseDecorators_loop.induct)
  case (1 p ds)
  show ?case
  proof (cases "curTokenIs p AT")
    case True
    obtain dec continue p' where s: "parseDecorators_one p = (dec, continue, p')"
      by (cases "parseDecorators_one p") auto
    have "\<not> curTokenIs p EOF" using True by (simp add: curTokenIs_def)
    then have less: "parser_measure p' < parser_measure p"
      using parseDecorators_one_less [of p] s by simp
    show ?thesis
    proof (cases continue)
      case True
      have "parser_measure (snd (parseDecorators_loop p'
               (case dec of None \<Rightarrow> ds | Some d \<Rightarrow> ds @ [d]))) \<le> parser_measure p'"
        using "1.IH" [OF \<open>curTokenIs p AT\<close> s [symmetric] refl refl refl True] .
      then show ?thesis
        using less s True \<open>curTokenIs p AT\<close> by (subst parseDecorators_loop.simps) simp
    next
      case False
      then show ?thesis
        using less s \<open>curTokenIs p AT\<close> by (subst parseDecorators_loop.simps) simp
    qed
  next
    case False
    then show ?thesis by (subst parseDecorators_loop.simps) simp
  qed
qed

lemma parseDecorators_less:
  "curTokenIs p AT \<Longrightarrow> parser_measure (snd (parseDecorators p)) < parser_measure p"
proof -
  assume at: "curTokenIs p AT"
  obtain dec continue p' where s: "parseDecorators_one p = (dec, continue, p')"
    by (cases "parseDecorators_one p") auto
  have "\<not> curTokenIs p EOF" using at by (simp add: curTokenIs_def)
  then have less: "parser_measure p' < parser_measure p"
    using parseDecorators_one_less [of p] s by simp
  show ?thesis
    unfolding parseDecorators_def
    using at s less
      parser_measure_parseDecorators_loop [of p' "case dec of None \<Rightarrow> [] | Some d \<Rightarrow> [] @ [d]"]
    by (subst parseDecorators_loop.simps) (simp add: Let_def)
qed

subsection \<open>Struct declarations\<close>

definition isType :: "TokenType \<Rightarrow> bool" where
  \<open>isType t =
     (t = INT_TYPE \<or> t = FLOAT_TYPE \<or> t = STRING_TYPE \<or> t = BOOL_TYPE \<or> t = DATE
      \<or> t = DATETIME \<or> t = IDENT)\<close>

text \<open>The end of \<open>parseFieldDecl\<close>: the field name and the semicolon.\<close>

definition parseFieldDecl_name ::
  "Decorator list \<Rightarrow> string \<Rightarrow> bool \<Rightarrow> Parser \<Rightarrow> FieldDecl option \<times> Parser" where
  \<open>parseFieldDecl_name decs ftype isArray p =
     (if \<not> curTokenIs p IDENT then (None, p)
      else
        (let name = Literal (curToken p);
             p1 = nextToken p
         in if \<not> curTokenIs p1 SEMICOLON then
              (None,
               p1\<lparr>errors := errors p1 @
                  [''Line '' @ itoa (Line (curToken p1)) @ '':'' @ itoa (Column (curToken p1))
                   @ '': expected \';\' after field declaration'']\<rparr>)
            else
              (Some \<lparr>FieldDecl.Name = name, Type = ftype, IsArray = isArray,
                     FieldDecl.Decorators = decs\<rparr>,
               p1)))\<close>

definition parseFieldDecl :: "Parser \<Rightarrow> FieldDecl option \<times> Parser" where
  \<open>parseFieldDecl p =
     (let (decs, p1) = (if curTokenIs p AT then parseDecorators p else ([], p)) in
      if \<not> isType (Token.Type (curToken p1)) then (None, p1)
      else
        (let ftype = Literal (curToken p1);
             p2 = nextToken p1
         in if curTokenIs p2 LBRACKET then
              (let (ok, p3) = expectPeek p2 RBRACKET in
               if \<not> ok then (None, p3)
               else parseFieldDecl_name decs ftype True (nextToken p3))
            else parseFieldDecl_name decs ftype False p2))\<close>

lemma parser_measure_parseFieldDecl_name:
  "parser_measure (snd (parseFieldDecl_name decs ftype isArray p)) \<le> parser_measure p"
  using parser_measure_nextToken_le [of p]
  by (simp add: parseFieldDecl_name_def Let_def)

lemma parseFieldDecl_advances:
  "\<not> curTokenIs p EOF \<Longrightarrow> advances p (snd (parseFieldDecl p))"
proof -
  assume c: "\<not> curTokenIs p EOF"
  define p1 where "p1 = snd (if curTokenIs p AT then parseDecorators p else ([], p))"
  have p1: "parser_measure p1 \<le> parser_measure p"
    "parser_measure p1 < parser_measure p \<or> \<not> curTokenIs p1 EOF"
    using c parseDecorators_less [of p] by (auto simp: p1_def)
  show ?thesis
  proof (cases "isType (Token.Type (curToken p1))")
    case False
    then show ?thesis
      using p1 by (simp add: parseFieldDecl_def case_prod_beta p1_def [symmetric] advances_def)
  next
    case True
    then have ne: "\<not> curTokenIs p1 EOF"
      by (auto simp: isType_def curTokenIs_def)
    define p2 where "p2 = nextToken p1"
    have p2: "parser_measure p2 < parser_measure p"
      using ne p1 parser_measure_nextToken_less [of p1] by (simp add: p2_def)
    have a: "parser_measure (snd (parseFieldDecl_name decs ftype isArray p2)) < parser_measure p"
      for decs ftype isArray
      using p2 parser_measure_parseFieldDecl_name [of decs ftype isArray p2] by simp
    have b: "parser_measure (snd (expectPeek p2 RBRACKET)) < parser_measure p"
      using p2 parser_measure_expectPeek_le [of p2 RBRACKET] by simp
    have d: "parser_measure (snd (parseFieldDecl_name decs ftype isArray
               (nextToken (snd (expectPeek p2 RBRACKET))))) < parser_measure p"
      for decs ftype isArray
      using b parser_measure_nextToken_le [of "snd (expectPeek p2 RBRACKET)"]
        parser_measure_parseFieldDecl_name
          [of decs ftype isArray "nextToken (snd (expectPeek p2 RBRACKET))"]
      by simp
    have "parser_measure (snd (parseFieldDecl p)) < parser_measure p"
      using True a b d
      by (simp add: parseFieldDecl_def case_prod_beta Let_def p1_def [symmetric]
            p2_def [symmetric])
    then show ?thesis by (simp add: advances_def)
  qed
qed

text \<open>The field loop of \<open>parseStructDecl\<close>.\<close>

function parseStructDecl_fields :: "Parser \<Rightarrow> FieldDecl list \<Rightarrow> FieldDecl list \<times> Parser" where
  \<open>parseStructDecl_fields p fs =
     (if \<not> curTokenIs p RBRACE \<and> \<not> curTokenIs p EOF then
        (let (field, p1) = parseFieldDecl p;
             fs' = (case field of None \<Rightarrow> fs | Some f \<Rightarrow> fs @ [f])
         in parseStructDecl_fields (nextToken p1) fs')
      else (fs, p))\<close>
  by pat_completeness auto
termination
proof (relation "measure (\<lambda>(p, fs). parser_measure p)")
  show "wf (measure (\<lambda>(p, fs). parser_measure p))" by simp
next
  fix p fs x field p1 fs'
  assume c: "\<not> curTokenIs p RBRACE \<and> \<not> curTokenIs p EOF"
    and x: "x = parseFieldDecl p" "(field, p1) = x"
  have "p1 = snd (parseFieldDecl p)" using x by (metis snd_conv)
  then show "((nextToken p1, fs'), (p, fs)) \<in> measure (\<lambda>(p, fs). parser_measure p)"
    using c advances_nextToken [OF parseFieldDecl_advances, of p] by simp
qed

declare parseStructDecl_fields.simps [simp del]

lemma parser_measure_parseStructDecl_fields:
  "parser_measure (snd (parseStructDecl_fields p fs)) \<le> parser_measure p"
proof (induction p fs rule: parseStructDecl_fields.induct)
  case (1 p fs)
  show ?case
  proof (cases "\<not> curTokenIs p RBRACE \<and> \<not> curTokenIs p EOF")
    case True
    obtain field p1 where s: "parseFieldDecl p = (field, p1)"
      by (cases "parseFieldDecl p")
    have "parser_measure (nextToken p1) < parser_measure p"
      using True s advances_nextToken [OF parseFieldDecl_advances, of p] by simp
    moreover have "parser_measure (snd (parseStructDecl_fields (nextToken p1)
            (case field of None \<Rightarrow> fs | Some f \<Rightarrow> fs @ [f]))) \<le> parser_measure (nextToken p1)"
      using "1.IH" [OF True s [symmetric] refl refl] .
    ultimately show ?thesis
      using True s by (subst parseStructDecl_fields.simps) simp
  next
    case False
    then show ?thesis by (subst parseStructDecl_fields.simps) auto
  qed
qed

definition parseStructDecl :: "Parser \<Rightarrow> StructDecl option \<times> Parser" where
  \<open>parseStructDecl p =
     (let (ok, p1) = expectPeek p IDENT in
      if \<not> ok then (None, p1)
      else
        (let name = Literal (curToken p1);
             (ok2, p2) = expectPeek p1 LBRACE
         in if \<not> ok2 then (None, p2)
            else
              (let p3 = nextToken p2;
                   (fs, p4) = parseStructDecl_fields p3 []
               in (Some \<lparr>StructDecl.Name = name, StructDecl.Decorators = [], Fields = fs\<rparr>, p4))))\<close>

text \<open>
  A construct that starts with \<open>expectPeek\<close>: either the token is there and is consumed,
  or a diagnostic is recorded and the parser stays where it is.
\<close>

lemma expectPeek_advances:
  "\<not> curTokenIs p EOF \<Longrightarrow> advances p (snd (expectPeek p t))"
  using parser_measure_nextToken_less [of p]
  by (auto simp: expectPeek_def advances_def curTokenIs_def)

lemma expectPeek_less:
  "\<not> curTokenIs p EOF \<Longrightarrow> fst (expectPeek p t) \<Longrightarrow>
     parser_measure (snd (expectPeek p t)) < parser_measure p"
  using parser_measure_nextToken_less [of p]
  by (auto simp: expectPeek_def split: if_splits)

lemma parseStructDecl_advances:
  "\<not> curTokenIs p EOF \<Longrightarrow> advances p (snd (parseStructDecl p))"
proof -
  assume c: "\<not> curTokenIs p EOF"
  define p1 where "p1 = snd (expectPeek p IDENT)"
  define p2 where "p2 = snd (expectPeek p1 LBRACE)"
  show ?thesis
  proof (cases "fst (expectPeek p IDENT)")
    case False
    then show ?thesis
      using expectPeek_advances [OF c, of IDENT]
      by (simp add: parseStructDecl_def case_prod_beta)
  next
    case True
    have 1: "parser_measure p1 < parser_measure p"
      using expectPeek_less [OF c True] by (simp add: p1_def)
    have 2: "parser_measure p2 < parser_measure p"
      using 1 parser_measure_expectPeek_le [of p1 LBRACE] by (simp add: p2_def)
    have 3: "parser_measure (snd (parseStructDecl_fields (nextToken p2) [])) < parser_measure p"
      using 2 parser_measure_nextToken_le [of p2]
        parser_measure_parseStructDecl_fields [of "nextToken p2" "[]"] by simp
    have "parser_measure (snd (parseStructDecl p)) < parser_measure p"
      using True 2 3
      by (simp add: parseStructDecl_def case_prod_beta Let_def p1_def [symmetric]
            p2_def [symmetric])
    then show ?thesis by (simp add: advances_def)
  qed
qed

subsection \<open>Page declarations\<close>

function parsePageDecl_body :: "Parser \<Rightarrow> Parser" where
  \<open>parsePageDecl_body p =
     (if \<not> curTokenIs p RBRACE \<and> \<not> curTokenIs p EOF then parsePageDecl_body (nextToken p) else p)\<close>
  by pat_completeness auto
termination
  by (relation "measure parser_measure") (auto intro: parser_measure_nextToken_less)

declare parsePageDecl_body.simps [simp del]

lemma parser_measure_parsePageDecl_body:
  "parser_measure (parsePageDecl_body p) \<le> parser_measure p"
proof (induction p rule: parsePageDecl_body.induct)
  case (1 p)
  show ?case
    using 1 parser_measure_nextToken_le [of p]
    by (subst parsePageDecl_body.simps) auto
qed

definition parsePageDecl :: "Parser \<Rightarrow> PageDecl option \<times> Parser" where
  \<open>parsePageDecl p =
     (let (ok, p1) = expectPeek p IDENT in
      if \<not> ok then (None, p1)
      else
        (let name = Literal (curToken p1);
             (ok2, p2) = expectPeek p1 LBRACE
         in if \<not> ok2 then (None, p2)
            else
              (let p3 = nextToken p2;
                   p4 = parsePageDecl_body p3
               in (Some \<lparr>PageDecl.Name = name, Route = [], PageDecl.Decorators = [],
                          Properties = Map.empty\<rparr>, p4))))\<close>

lemma parsePageDecl_advances:
  "\<not> curTokenIs p EOF \<Longrightarrow> advances p (snd (parsePageDecl p))"
proof -
  assume c: "\<not> curTokenIs p EOF"
  define p1 where "p1 = snd (expectPeek p IDENT)"
  define p2 where "p2 = snd (expectPeek p1 LBRACE)"
  show ?thesis
  proof (cases "fst (expectPeek p IDENT)")
    case False
    then show ?thesis
      using expectPeek_advances [OF c, of IDENT]
      by (simp add: parsePageDecl_def case_prod_beta)
  next
    case True
    have 1: "parser_measure p1 < parser_measure p"
      using expectPeek_less [OF c True] by (simp add: p1_def)
    have 2: "parser_measure p2 < parser_measure p"
      using 1 parser_measure_expectPeek_le [of p1 LBRACE] by (simp add: p2_def)
    have 3: "parser_measure (parsePageDecl_body (nextToken p2)) < parser_measure p"
      using 2 parser_measure_nextToken_le [of p2]
        parser_measure_parsePageDecl_body [of "nextToken p2"] by simp
    have "parser_measure (snd (parsePageDecl p)) < parser_measure p"
      using True 2 3
      by (simp add: parsePageDecl_def case_prod_beta Let_def p1_def [symmetric]
            p2_def [symmetric])
    then show ?thesis by (simp add: advances_def)
  qed
qed

subsection \<open>Function and handler declarations\<close>

text \<open>
  The loop that skips a body, counting braces; it leaves the loop on the closing brace
  that brings the count to zero. \<open>braceCount\<close> is a Go \<open>int\<close> and can fall below zero.
\<close>

function parseFunctionDecl_body :: "Parser \<Rightarrow> int \<Rightarrow> Parser" where
  \<open>parseFunctionDecl_body p braceCount =
     (if \<not> curTokenIs p EOF then
        (if curTokenIs p LBRACE then parseFunctionDecl_body (nextToken p) (braceCount + 1)
         else if curTokenIs p RBRACE then
           (if braceCount - 1 = 0 then p
            else parseFunctionDecl_body (nextToken p) (braceCount - 1))
         else parseFunctionDecl_body (nextToken p) braceCount)
      else p)\<close>
  by pat_completeness auto
termination
  by (relation "measure (\<lambda>(p, n). parser_measure p)") (auto intro: parser_measure_nextToken_less)

declare parseFunctionDecl_body.simps [simp del]

lemma parser_measure_parseFunctionDecl_body:
  "parser_measure (parseFunctionDecl_body p n) \<le> parser_measure p"
proof (induction p n rule: parseFunctionDecl_body.induct)
  case (1 p n)
  show ?case
    using 1 parser_measure_nextToken_le [of p]
    by (subst parseFunctionDecl_body.simps) (auto intro: order_trans)
qed

definition parseFunctionDecl :: "Parser \<Rightarrow> FunctionDecl option \<times> Parser" where
  \<open>parseFunctionDecl p =
     (let returnType = Literal (curToken p);
          p1 = nextToken p
      in if \<not> curTokenIs p1 IDENT then (None, p1)
         else
           (let name = Literal (curToken p1);
                p2 = parseFunctionDecl_body p1 0
            in (Some \<lparr>FunctionDecl.Name = name, ReturnType = returnType,
                       FunctionDecl.Parameters = []\<rparr>, p2)))\<close>

lemma parseFunctionDecl_advances:
  "\<not> curTokenIs p EOF \<Longrightarrow> advances p (snd (parseFunctionDecl p))"
  using parser_measure_nextToken_less [of p]
    parser_measure_parseFunctionDecl_body [of "nextToken p" 0]
  by (auto simp: parseFunctionDecl_def Let_def advances_def)

text \<open>The parameter loop of \<open>parseHandlerDecl\<close>.\<close>

definition parseHandlerDecl_param :: "Parser \<Rightarrow> Parameter list \<Rightarrow> Parameter list \<times> Parser" where
  \<open>parseHandlerDecl_param p params =
     (let ptype = Literal (curToken p);
          p1 = nextToken p;
          (params', p2) =
            (if curTokenIs p1 IDENT then
               (params @ [\<lparr>Parameter.Name = Literal (curToken p1), Parameter.Type = ptype\<rparr>],
                nextToken p1)
             else (params, p1))
      in if curTokenIs p2 COMMA then (params', nextToken p2) else (params', p2))\<close>

lemma parseHandlerDecl_param_less:
  "\<not> curTokenIs p EOF \<Longrightarrow> parser_measure (snd (parseHandlerDecl_param p params)) < parser_measure p"
proof -
  assume c: "\<not> curTokenIs p EOF"
  have 1: "parser_measure (nextToken p) < parser_measure p"
    using c by (rule parser_measure_nextToken_less)
  have 2: "parser_measure (nextToken (nextToken p)) < parser_measure p"
    using 1 parser_measure_nextToken_le [of "nextToken p"] by simp
  have 3: "parser_measure (nextToken (nextToken (nextToken p))) < parser_measure p"
    using 2 parser_measure_nextToken_le [of "nextToken (nextToken p)"] by simp
  show ?thesis
    using 1 2 3 by (simp add: parseHandlerDecl_param_def Let_def case_prod_beta)
qed

function parseHandlerDecl_params :: "Parser \<Rightarrow> Parameter list \<Rightarrow> Parameter list \<times> Parser" where
  \<open>parseHandlerDecl_params p params =
     (if \<not> curTokenIs p RPAREN \<and> \<not> curTokenIs p EOF then
        (let (params', p') = parseHandlerDecl_param p params in parseHandlerDecl_params p' params')
      else (params, p))\<close>
  by pat_completeness auto
termination
proof (relation "measure (\<lambda>(p, ps). parser_measure p)")
  show "wf (measure (\<lambda>(p, ps). parser_measure p))" by simp
next
  fix p params x params' p'
  assume "\<not> curTokenIs p RPAREN \<and> \<not> curTokenIs p EOF"
    and "x = parseHandlerDecl_param p params" and "(params', p') = x"
  then show "((p', params'), (p, params)) \<in> measure (\<lambda>(p, ps). parser_measure p)"
    using parseHandlerDecl_param_less [of p params] by (metis case_prod_conv in_measure snd_conv)
qed

declare parseHandlerDecl_params.simps [simp del]

lemma parser_measure_parseHandlerDecl_params:
  "parser_measure (snd (parseHandlerDecl_params p ps)) \<le> parser_measure p"
proof (induction p ps rule: parseHandlerDecl_params.induct)
  case (1 p ps)
  show ?case
  proof (cases "\<not> curTokenIs p RPAREN \<and> \<not> curTokenIs p EOF")
    case True
    obtain ps' p' where s: "parseHandlerDecl_param p ps = (ps', p')"
      by (cases "parseHandlerDecl_param p ps")
    have "parser_measure p' < parser_measure p"
      using parseHandlerDecl_param_less [of p ps] True s by simp
    moreover have "parser_measure (snd (parseHandlerDecl_params p' ps')) \<le> parser_measure p'"
      using "1.IH" [OF True refl s [symmetric]] .
    ultimately show ?thesis
      using True s by (subst parseHandlerDecl_params.simps) simp
  next
    case False
    then show ?thesis by (subst parseHandlerDecl_params.simps) auto
  qed
qed

text \<open>The body loop of \<open>parseHandlerDecl\<close>, the same loop as in \<open>parseFunctionDecl\<close>.\<close>

function parseHandlerDecl_body :: "Parser \<Rightarrow> int \<Rightarrow> Parser" where
  \<open>parseHandlerDecl_body p braceCount =
     (if \<not> curTokenIs p EOF then
        (if curTokenIs p LBRACE then parseHandlerDecl_body (nextToken p) (braceCount + 1)
         else if curTokenIs p RBRACE then
           (if braceCount - 1 = 0 then p
            else parseHandlerDecl_body (nextToken p) (braceCount - 1))
         else parseHandlerDecl_body (nextToken p) braceCount)
      else p)\<close>
  by pat_completeness auto
termination
  by (relation "measure (\<lambda>(p, n). parser_measure p)") (auto intro: parser_measure_nextToken_less)

declare parseHandlerDecl_body.simps [simp del]

lemma parser_measure_parseHandlerDecl_body:
  "parser_measure (parseHandlerDecl_body p n) \<le> parser_measure p"
proof (induction p n rule: parseHandlerDecl_body.induct)
  case (1 p n)
  show ?case
    using 1 parser_measure_nextToken_le [of p]
    by (subst parseHandlerDecl_body.simps) (auto intro: order_trans)
qed

definition parseHandlerDecl :: "Parser \<Rightarrow> HandlerDecl option \<times> Parser" where
  \<open>parseHandlerDecl p =
     (let p1 = nextToken p in
      if \<not> curTokenIs p1 IDENT then (None, p1)
      else
        (let name = Literal (curToken p1);
             p2 = nextToken p1
         in if \<not> curTokenIs p2 LPAREN then (None, p2)
            else
              (let p3 = nextToken p2;
                   (params, p4) = parseHandlerDecl_params p3 []
               in if \<not> curTokenIs p4 RPAREN then (None, p4)
                  else
                    (let p5 = nextToken p4;
                         p6 = (if curTokenIs p5 LBRACE then parseHandlerDecl_body p5 0 else p5)
                     in (Some \<lparr>Path = [], Method = [], HandlerDecl.Name = name,
                                HandlerDecl.Parameters = params, HandlerDecl.Decorators = []\<rparr>,
                         p6)))))\<close>

lemma parseHandlerDecl_advances:
  "\<not> curTokenIs p EOF \<Longrightarrow> advances p (snd (parseHandlerDecl p))"
proof -
  assume c: "\<not> curTokenIs p EOF"
  define p1 where "p1 = nextToken p"
  define p2 where "p2 = nextToken p1"
  define p4 where "p4 = snd (parseHandlerDecl_params (nextToken p2) [])"
  define p5 where "p5 = nextToken p4"
  have 1: "parser_measure p1 < parser_measure p"
    using c by (simp add: p1_def parser_measure_nextToken_less)
  have 2: "parser_measure p2 < parser_measure p"
    using 1 parser_measure_nextToken_le [of p1] by (simp add: p2_def)
  have 4: "parser_measure p4 < parser_measure p"
    using 2 parser_measure_nextToken_le [of p2]
      parser_measure_parseHandlerDecl_params [of "nextToken p2" "[]"] by (simp add: p4_def)
  have 5: "parser_measure p5 < parser_measure p"
    using 4 parser_measure_nextToken_le [of p4] by (simp add: p5_def)
  have 6: "parser_measure (parseHandlerDecl_body p5 0) < parser_measure p"
    using 5 parser_measure_parseHandlerDecl_body [of p5 0] by simp
  have "parser_measure (snd (parseHandlerDecl p)) < parser_measure p"
    using 1 2 4 5 6
    by (simp add: parseHandlerDecl_def Let_def case_prod_beta p1_def [symmetric]
          p2_def [symmetric] p4_def [symmetric] p5_def [symmetric])
  then show ?thesis by (simp add: advances_def)
qed

subsection \<open>Statements and the program\<close>

text \<open>
  \<open>parseStatement\<close> returns an interface value. \<open>None\<close> is the \<open>nil\<close> interface, which
  only the \<open>default\<close> branches return; a construct that fails returns a \<open>nil\<close> pointer,
  and the interface value that wraps it is not \<open>nil\<close>.
\<close>

definition parseDecoratedStatement :: "Parser \<Rightarrow> Node option \<times> Parser" where
  \<open>parseDecoratedStatement p =
     (let (decorators, p1) = parseDecorators p in
      if curTokenIs p1 STRUCT then
        (let (structDecl, p2) = parseStructDecl p1
         in (Some (StructNode (map_option (\<lambda>s. s\<lparr>StructDecl.Decorators := decorators\<rparr>) structDecl)), p2))
      else if curTokenIs p1 PAGE then
        (let (pageDecl, p2) = parsePageDecl p1
         in (Some (PageNode (map_option (\<lambda>s. s\<lparr>PageDecl.Decorators := decorators\<rparr>) pageDecl)), p2))
      else if curTokenIs p1 HANDLER then
        (let (handlerDecl, p2) = parseHandlerDecl p1
         in (Some (HandlerNode (map_option (\<lambda>s. s\<lparr>HandlerDecl.Decorators := decorators\<rparr>) handlerDecl)), p2))
      else (None, p1))\<close>

definition parseStatement :: "Parser \<Rightarrow> Node option \<times> Parser" where
  \<open>parseStatement p =
     (if curTokenIs p AT then parseDecoratedStatement p
      else if curTokenIs p STRUCT then
        (let (s, p1) = parseStructDecl p in (Some (StructNode s), p1))
      else if curTokenIs p PAGE then
        (let (s, p1) = parsePageDecl p in (Some (PageNode s), p1))
      else if curTokenIs p HANDLER then
        (let (s, p1) = parseHandlerDecl p in (Some (HandlerNode s), p1))
      else if curTokenIs p INT_TYPE \<or> curTokenIs p FLOAT_TYPE \<or> curTokenIs p STRING_TYPE
              \<or> curTokenIs p BOOL_TYPE \<or> curTokenIs p VOID then
        (let (s, p1) = parseFunctionDecl p in (Some (FunctionNode s), p1))
      else (None, p))\<close>

lemma parseDecoratedStatement_advances:
  "curTokenIs p AT \<Longrightarrow> advances p (snd (parseDecoratedStatement p))"
proof -
  assume at: "curTokenIs p AT"
  define p1 where "p1 = snd (parseDecorators p)"
  have 1: "parser_measure p1 < parser_measure p"
    using parseDecorators_less [OF at] by (simp add: p1_def)
  have le: "parser_measure q \<le> parser_measure p1 \<Longrightarrow> advances p q" for q
    using 1 by (simp add: advances_def)
  have s: "curTokenIs p1 STRUCT \<Longrightarrow> advances p (snd (parseStructDecl p1))"
    using parseStructDecl_advances [of p1] by (intro le) (auto simp: advances_def curTokenIs_def)
  have g: "curTokenIs p1 PAGE \<Longrightarrow> advances p (snd (parsePageDecl p1))"
    using parsePageDecl_advances [of p1] by (intro le) (auto simp: advances_def curTokenIs_def)
  have h: "curTokenIs p1 HANDLER \<Longrightarrow> advances p (snd (parseHandlerDecl p1))"
    using parseHandlerDecl_advances [of p1] by (intro le) (auto simp: advances_def curTokenIs_def)
  show ?thesis
    using s g h le [of p1]
    by (simp add: parseDecoratedStatement_def case_prod_beta p1_def [symmetric])
qed

text \<open>Every statement advances, whatever the current token is, as long as it is not \<open>EOF\<close>.\<close>

lemma parseStatement_advances:
  "\<not> curTokenIs p EOF \<Longrightarrow> advances p (snd (parseStatement p))"
  using parseDecoratedStatement_advances [of p] parseStructDecl_advances [of p]
    parsePageDecl_advances [of p] parseHandlerDecl_advances [of p]
    parseFunctionDecl_advances [of p]
  by (auto simp: parseStatement_def case_prod_beta advances_def)

text \<open>The loop of \<open>ParseProgram\<close>.\<close>

function ParseProgram_loop :: "Parser \<Rightarrow> Node list \<Rightarrow> Node list \<times> Parser" where
  \<open>ParseProgram_loop p stmts =
     (if \<not> curTokenIs p EOF then
        (let (stmt, p1) = parseStatement p;
             stmts' = (case stmt of None \<Rightarrow> stmts | Some n \<Rightarrow> stmts @ [n])
         in ParseProgram_loop (nextToken p1) stmts')
      else (stmts, p))\<close>
  by pat_completeness auto
termination
proof (relation "measure (\<lambda>(p, stmts). parser_measure p)")
  show "wf (measure (\<lambda>(p, stmts). parser_measure p))" by simp
next
  fix p stmts x stmt p1 stmts'
  assume c: "\<not> curTokenIs p EOF" and x: "x = parseStatement p" "(stmt, p1) = x"
  have "p1 = snd (parseStatement p)" using x by (metis snd_conv)
  then show "((nextToken p1, stmts'), (p, stmts)) \<in> measure (\<lambda>(p, stmts). parser_measure p)"
    using c advances_nextToken [OF parseStatement_advances, of p] by simp
qed

declare ParseProgram_loop.simps [simp del]

definition ParseProgram :: "Parser \<Rightarrow> Program \<times> Parser" where
  \<open>ParseProgram p =
     (let (stmts, p') = ParseProgram_loop p [] in (\<lparr>Statements = stmts\<rparr>, p'))\<close>

text \<open>Parsing a text: the program and the diagnostics.\<close>

definition parse :: "string \<Rightarrow> Program \<times> string list" where
  \<open>parse text =
     (let (program, p) = ParseProgram (New_Parser (New_Lexer text)) in (program, errors p))\<close>

text \<open>
  What every construct of the parser keeps from the state \<open>p\<close> it starts in: the
  diagnostics recorded so far, to which it only appends, and the cursor invariant of the
  lexer.
\<close>

definition parser_keeps :: "Parser \<Rightarrow> Parser \<Rightarrow> bool" where
  \<open>parser_keeps p p' =
     (prefix (errors p) (errors p') \<and> (lexer_wf (lex p) \<longrightarrow> lexer_wf (lex p')))\<close>

section \<open>Specification vocabulary and example declarations\<close>

text \<open>The specification's words: a field carries a decorator of a given name.\<close>

definition carries :: "FieldDecl \<Rightarrow> string \<Rightarrow> bool" where
  "carries field name = (\<exists>dec \<in> set (FieldDecl.Decorators field). Decorator.Name dec = name)"

definition decorator :: "string \<Rightarrow> Decorator" where
  "decorator name = \<lparr>Decorator.Name = name, Args = [], KVArgs = Map.empty\<rparr>"



definition Product_price :: FieldDecl where
  "Product_price = \<lparr>FieldDecl.Name = ''price'', Type = ''float'', IsArray = False,
     FieldDecl.Decorators = []\<rparr>"






text \<open>\<open>int description;\<close> and \<open>float price;\<close> and \<open>string title;\<close> and \<open>@required bool done;\<close>\<close>

definition int_description :: FieldDecl where
  "int_description = \<lparr>FieldDecl.Name = ''description'', Type = ''int'', IsArray = False,
     FieldDecl.Decorators = []\<rparr>"

definition plain_title :: FieldDecl where
  "plain_title = \<lparr>FieldDecl.Name = ''title'', Type = ''string'', IsArray = False,
     FieldDecl.Decorators = []\<rparr>"

definition required_done :: FieldDecl where
  "required_done = \<lparr>FieldDecl.Name = ''done'', Type = ''bool'', IsArray = False,
     FieldDecl.Decorators = [decorator ''required'']\<rparr>"


section \<open>Properties of the code generator\<close>

subsection \<open>The decorator loops\<close>







subsection \<open>The field loops\<close>













subsection \<open>Table names\<close>

lemma strings_Trim_strips:
  "\<exists>pre suf. a = pre @ strings_Trim a [c] @ suf \<and> set pre \<subseteq> {c} \<and> set suf \<subseteq> {c} \<and>
     (strings_Trim a [c] = [] \<or> (hd (strings_Trim a [c]) \<noteq> c \<and> last (strings_Trim a [c]) \<noteq> c))"
proof -
  define P where "P = (\<lambda>x. x \<in> set [c])"
  define b where "b = dropWhile P a"
  define t where "t = rev (dropWhile P (rev b))"
  have tt: "strings_Trim a [c] = t"
    by (simp add: strings_Trim_def t_def b_def P_def)
  have a: "a = takeWhile P a @ b"
    by (simp add: b_def)
  have "rev (takeWhile P (rev b) @ dropWhile P (rev b)) =
          rev (dropWhile P (rev b)) @ rev (takeWhile P (rev b))"
    by (rule rev_append)
  then have b: "b = t @ rev (takeWhile P (rev b))"
    unfolding t_def by simp
  have p1: "set (takeWhile P a) \<subseteq> {c}"
    using set_takeWhileD[of _ P a] by (auto simp: P_def)
  have p2: "set (rev (takeWhile P (rev b))) \<subseteq> {c}"
    using set_takeWhileD[of _ P "rev b"] by (auto simp: P_def)
  have l: "t \<noteq> [] \<Longrightarrow> last t \<noteq> c"
  proof -
    assume "t \<noteq> []"
    then have ne: "dropWhile P (rev b) \<noteq> []" by (simp add: t_def)
    then have "\<not> P (hd (dropWhile P (rev b)))" by (rule hd_dropWhile)
    moreover have "last t = hd (dropWhile P (rev b))"
      using ne by (simp add: t_def last_rev)
    ultimately show ?thesis by (simp add: P_def)
  qed
  have h: "t \<noteq> [] \<Longrightarrow> hd t \<noteq> c"
  proof -
    assume tne: "t \<noteq> []"
    then have bne: "b \<noteq> []" using b by auto
    then have "\<not> P (hd b)" unfolding b_def by (rule hd_dropWhile)
    moreover have "hd b = hd t" using b tne by (metis hd_append2)
    ultimately show ?thesis by (simp add: P_def)
  qed
  show ?thesis
    unfolding tt
    apply (rule exI[of _ "takeWhile P a"])
    apply (rule exI[of _ "rev (takeWhile P (rev b))"])
    using a b p1 p2 l h by auto
qed




subsection \<open>The create function\<close>





subsection \<open>Array fields\<close>




subsection \<open>Form controls\<close>

lemma prepareHTMLData_isAuto_iff:
  "prepareHTMLData_isAuto ds b \<longleftrightarrow>
     b \<or> (\<exists>d \<in> set ds. Decorator.Name d = ''autoincrement'' \<or> Decorator.Name d = ''primary'')"
  by (induction ds arbitrary: b) auto

lemma prepareHTMLData_required_iff:
  "prepareHTMLData_required ds b \<longleftrightarrow> b \<or> (\<exists>d \<in> set ds. Decorator.Name d = ''required'')"
  by (induction ds arbitrary: b) auto

text \<open>
  The form fields of the template generator: one per field that is not an array and carries
  neither \<open>autoincrement\<close> nor \<open>primary\<close>, with the input kind of the rule (a field named
  \<open>description\<close> is a text area whatever its type, a \<open>bool\<close> a checkbox, an \<open>int\<close> a
  number, anything else text), required exactly when the field carries \<open>required\<close>.
\<close>

lemma prepareHTMLData_formFields:
  "snd (prepareHTMLData_fields fs (ds, ffs)) =
     ffs @ map (\<lambda>f. \<lparr>FormFieldData.Name = FieldDecl.Name f,
                      Label = strings_Title (FieldDecl.Name f),
                      InputType =
                        (if FieldDecl.Name f = ''description'' then ''textarea''
                         else if FieldDecl.Type f = ''bool'' then ''checkbox''
                         else if FieldDecl.Type f = ''int'' then ''number''
                         else ''text''),
                      Required = carries f ''required''\<rparr>)
            (filter (\<lambda>f. \<not> FieldDecl.IsArray f \<and> \<not> carries f ''autoincrement'' \<and> \<not> carries f ''primary'') fs)"
  by (induction fs arbitrary: ds ffs)
     (auto simp: Let_def prepareHTMLData_isAuto_iff prepareHTMLData_required_iff carries_def
        prepareHTMLData_inputType_def)

text \<open>
  Claim C4, at a failing input. In \<open>generateFormHTML\<close> the text area is chosen only
  inside the branch of C type \<open>char*\<close>, and every field that is neither of that C type
  nor \<open>bool\<close> gets a numeric input: a field \<open>int description\<close> is rendered as a
  numeric input, where the rule (and \<open>prepareHTMLData\<close>) has a text area, and a
  \<open>float\<close> field as a numeric input, where the rule (and \<open>prepareHTMLData\<close>) has a
  single-line text input.
\<close>

theorem generateFormHTML_control_kinds:
  \<open>generateFormHTML_control int_description =
     ''    offset += sprintf(html + offset, "<input type=\'number\' name=\'description\' class=\'form-control\' required>'' @ bsl @ ''n");\<newline>''
   \<and> prepareHTMLData_inputType int_description = ''textarea''
   \<and> generateFormHTML_control Product_price =
     ''    offset += sprintf(html + offset, "<input type=\'number\' name=\'price\' class=\'form-control\' required>'' @ bsl @ ''n");\<newline>''
   \<and> prepareHTMLData_inputType Product_price = ''text''\<close>
  by (simp add: generateFormHTML_control_def prepareHTMLData_inputType_def int_description_def
        Product_price_def mapType_def)

text \<open>
  Claim C5, at failing inputs. The control that \<open>generateFormHTML\<close> writes does not
  depend on the decorators of the field: a \<open>string\<close> field without \<open>required\<close> gets
  the attribute \<open>required\<close>, and a \<open>bool\<close> field with \<open>required\<close> does not, while
  \<open>prepareHTMLData\<close> sets \<open>Required\<close> from the decorator.
\<close>

theorem generateFormHTML_control_required:
  \<open>generateFormHTML_control (field\<lparr>FieldDecl.Decorators := decs\<rparr>) = generateFormHTML_control field
   \<and> \<not> carries plain_title ''required''
   \<and> generateFormHTML_control plain_title =
     ''    offset += sprintf(html + offset, "<input type=\'text\' name=\'title\' class=\'form-control\' required>'' @ bsl @ ''n");\<newline>''
   \<and> \<not> prepareHTMLData_required (FieldDecl.Decorators plain_title) False
   \<and> carries required_done ''required''
   \<and> generateFormHTML_control required_done =
     ''    offset += sprintf(html + offset, "<input type=\'checkbox\' name=\'done\' class=\'form-check-input\'>'' @ bsl @ ''n");\<newline>''
   \<and> prepareHTMLData_required (FieldDecl.Decorators required_done) False\<close>
  by (simp add: generateFormHTML_control_def carries_def plain_title_def required_done_def
        decorator_def mapType_def)

subsection \<open>Determinism of generation\<close>



lemma Generate_collect_handlers:
  "handlers (Generate_collect ns g) =
     handlers g @ List.map_filter (\<lambda>n. case n of HandlerNode s \<Rightarrow> Some s | _ \<Rightarrow> None) ns"
  by (induction ns arbitrary: g) (auto simp: List.map_filter_simps split: Node.splits)








section \<open>Properties of the tokenizer and the parser\<close>

subsection \<open>The cursor invariant\<close>

text \<open>
  \<open>readChar\<close> establishes the invariant \<open>lexer_wf\<close>: the read position is one past the
  position, and the current byte is the byte at the position, or the end mark past the end
  of the text. Every loop of the tokenizer keeps it.
\<close>

lemma lexer_wf_readChar [simp]: "lexer_wf (readChar l)"
  by (simp add: lexer_wf_def readChar_def Let_def)

lemma lexer_wf_New_Lexer: "lexer_wf (New_Lexer text)"
  by (simp add: New_Lexer_def)

lemma position_readChar: "lexer_wf l \<Longrightarrow> position (readChar l) = position l + 1"
  by (simp add: lexer_wf_def readChar_def Let_def)

lemma string_span_le: "string_span cs \<le> length cs"
  by (induction cs rule: string_span.induct) (auto simp: neq_Nil_conv)

lemma drop_position:
  "lexer_wf l \<Longrightarrow> position l < length (input l) \<Longrightarrow>
     drop (position l) (input l) = ch l # drop (position l + 1) (input l)"
  by (simp add: lexer_wf_def Cons_nth_drop_Suc)

lemma peekChar_drop:
  "lexer_wf l \<Longrightarrow>
     peekChar l = (if drop (position l + 1) (input l) = [] then NUL
                   else hd (drop (position l + 1) (input l)))"
  by (auto simp: lexer_wf_def peekChar_def hd_drop_conv_nth)

text \<open>The loop of \<open>readString\<close> stops after exactly the bytes of the specification.\<close>

lemma readString_loop_span:
  "lexer_wf l \<Longrightarrow>
     lexer_wf (readString_loop l) \<and> input (readString_loop l) = input l
     \<and> position (readString_loop l) = position l + string_span (drop (position l) (input l))"
proof (induction l rule: readString_loop.induct)
  case (1 l)
  note wf = \<open>lexer_wf l\<close>
  show ?case
  proof (cases "ch l \<noteq> dquote \<and> ch l \<noteq> NUL")
    case False
    have "string_span (drop (position l) (input l)) = 0"
    proof (cases "position l < length (input l)")
      case True
      then show ?thesis using False drop_position [OF wf True] by auto
    next
      case False
      then show ?thesis by simp
    qed
    then show ?thesis
      using False wf by (subst (1 2 3) readString_loop.simps) auto
  next
    case True
    then have lt: "position l < length (input l)"
      using wf by (auto simp: lexer_wf_def split: if_splits)
    note d = drop_position [OF wf lt]
    show ?thesis
    proof (cases "ch l = CHR 0x5C \<and> peekChar l = dquote")
      case esc: True
      then have ne: "drop (position l + 1) (input l) \<noteq> []"
        and hd: "hd (drop (position l + 1) (input l)) = dquote"
        using peekChar_drop [OF wf] by (auto split: if_splits)
      have tl: "tl (drop (position l + 1) (input l)) = drop (position l + 2) (input l)"
        by (simp add: tl_drop drop_Suc)
      have pos: "position (readChar (readChar l)) = position l + 2"
        using position_readChar [OF wf] position_readChar [of "readChar l"] by simp
      have ih: "lexer_wf (readString_loop (readChar (readChar l)))
          \<and> input (readString_loop (readChar (readChar l))) = input (readChar (readChar l))
          \<and> position (readString_loop (readChar (readChar l))) =
              position (readChar (readChar l))
              + string_span (drop (position (readChar (readChar l))) (input (readChar (readChar l))))"
        using "1.IH"(1) [OF True esc] by simp
      have span: "string_span (drop (position l) (input l)) =
          2 + string_span (drop (position l + 2) (input l))"
        using True esc ne hd tl by (simp add: d)
      show ?thesis
        using True esc ih pos span by (subst (1 2 3) readString_loop.simps) simp
    next
      case noesc: False
      have pos: "position (readChar l) = position l + 1"
        using position_readChar [OF wf] .
      have ih: "lexer_wf (readString_loop (readChar l))
          \<and> input (readString_loop (readChar l)) = input (readChar l)
          \<and> position (readString_loop (readChar l)) =
              position (readChar l) + string_span (drop (position (readChar l)) (input (readChar l)))"
        using "1.IH"(2) [OF True noesc] by simp
      have span: "string_span (drop (position l) (input l)) =
          1 + string_span (drop (position l + 1) (input l))"
        using True noesc peekChar_drop [OF wf] by (auto simp: d)
      show ?thesis
        using True noesc ih pos span by (subst (1 2 3) readString_loop.simps) auto
    qed
  qed
qed

lemma lexer_wf_not_NUL: "lexer_wf l \<Longrightarrow> ch l \<noteq> NUL \<Longrightarrow> position l < length (input l)"
  by (auto simp: lexer_wf_def split: if_splits)

lemma lexer_wf_skipWhitespace: "lexer_wf l \<Longrightarrow> lexer_wf (skipWhitespace l)"
  by (induction l rule: skipWhitespace.induct) (subst skipWhitespace.simps, simp)

lemma lexer_wf_skipLineComment_loop: "lexer_wf l \<Longrightarrow> lexer_wf (skipLineComment_loop l)"
  by (induction l rule: skipLineComment_loop.induct) (subst skipLineComment_loop.simps, simp)

lemma lexer_wf_skipBlockComment_loop: "lexer_wf l \<Longrightarrow> lexer_wf (skipBlockComment_loop l)"
  by (induction l rule: skipBlockComment_loop.induct) (subst skipBlockComment_loop.simps, simp)

lemma lexer_wf_skipLineComment: "lexer_wf (skipLineComment l)"
  by (simp add: skipLineComment_def lexer_wf_skipLineComment_loop)

lemma lexer_wf_skipBlockComment: "lexer_wf (skipBlockComment l)"
  by (simp add: skipBlockComment_def lexer_wf_skipBlockComment_loop)

lemma readIdentifier_loop_position:
  "lexer_wf l \<Longrightarrow> position l \<le> length (input l) \<Longrightarrow>
     lexer_wf (readIdentifier_loop l) \<and> input (readIdentifier_loop l) = input l
     \<and> position l \<le> position (readIdentifier_loop l)
     \<and> position (readIdentifier_loop l) \<le> length (input l)"
proof (induction l rule: readIdentifier_loop.induct)
  case (1 l)
  show ?case
  proof (cases "isLetter (ch l) \<or> isDigit (ch l) \<or> ch l = CHR ''_''")
    case True
    then have "ch l \<noteq> NUL" using isLetter_not_NUL isDigit_not_NUL by auto
    then have lt: "position l < length (input l)" using 1(2) by (simp add: lexer_wf_not_NUL)
    have "position (readChar l) \<le> length (input (readChar l))"
      using lt position_readChar [OF 1(2)] by simp
    from 1(1) [OF True lexer_wf_readChar this] show ?thesis
      using True position_readChar [OF 1(2)]
      by (subst (1 2 3 4) readIdentifier_loop.simps) simp
  next
    case False
    then show ?thesis
      using 1(2,3) by (subst (1 2 3 4) readIdentifier_loop.simps) simp
  qed
qed

lemma readNumber_digits_position:
  "lexer_wf l \<Longrightarrow> position l \<le> length (input l) \<Longrightarrow>
     lexer_wf (readNumber_digits l) \<and> input (readNumber_digits l) = input l
     \<and> position l \<le> position (readNumber_digits l)
     \<and> position (readNumber_digits l) \<le> length (input l)"
proof (induction l rule: readNumber_digits.induct)
  case (1 l)
  show ?case
  proof (cases "isDigit (ch l)")
    case True
    then have "ch l \<noteq> NUL" using isDigit_not_NUL by auto
    then have lt: "position l < length (input l)" using 1(2) by (simp add: lexer_wf_not_NUL)
    have "position (readChar l) \<le> length (input (readChar l))"
      using lt position_readChar [OF 1(2)] by simp
    from 1(1) [OF True lexer_wf_readChar this] show ?thesis
      using True position_readChar [OF 1(2)]
      by (subst (1 2 3 4) readNumber_digits.simps) simp
  next
    case False
    then show ?thesis
      using 1(2,3) by (subst (1 2 3 4) readNumber_digits.simps) simp
  qed
qed

lemma lexer_wf_readNumber_digits: "lexer_wf l \<Longrightarrow> lexer_wf (readNumber_digits l)"
  by (induction l rule: readNumber_digits.induct) (subst readNumber_digits.simps, simp)

lemma lexer_wf_readIdentifier_loop: "lexer_wf l \<Longrightarrow> lexer_wf (readIdentifier_loop l)"
  by (induction l rule: readIdentifier_loop.induct) (subst readIdentifier_loop.simps, simp)

lemma snd_oneByte [simp]: "snd (oneByte t l) = readChar l"
  by (simp add: oneByte_def)

lemma snd_twoBytes [simp]: "snd (twoBytes t l) = readChar (readChar l)"
  by (simp add: twoBytes_def Let_def)

lemma NextToken_switch_ok:
  assumes wf: "lexer_wf l"
  shows "NextToken_switch_in_range l \<and> lexer_wf (snd (NextToken_switch l))"
proof -
  have le: "position l \<le> length (input l)" if "ch l \<noteq> NUL"
    using lexer_wf_not_NUL [OF wf that] by simp
  have str: "slice_in_range (input l) (position (readChar l))
               (position (readString_loop (readChar l)))" if "ch l = dquote"
  proof -
    have lt: "position l < length (input l)" using that wf by (simp add: lexer_wf_not_NUL)
    have "position (readString_loop (readChar l))
            = position l + 1 + string_span (drop (position l + 1) (input l))"
      using readString_loop_span [of "readChar l"] position_readChar [OF wf] by simp
    then show ?thesis
      using string_span_le [of "drop (position l + 1) (input l)"] lt position_readChar [OF wf]
      by (simp add: slice_in_range_def)
  qed
  have idt: "slice_in_range (input l) (position l) (position (readIdentifier_loop l))
             \<and> lexer_wf (readIdentifier_loop l)" if "isLetter (ch l)"
    using readIdentifier_loop_position [OF wf le] that isLetter_not_NUL
    by (simp add: slice_in_range_def)
  have num: "(let l1 = readNumber_digits l in
         if ch l1 = CHR ''.'' \<and> isDigit (peekChar l1)
         then slice_in_range (input l) (position l) (position (readNumber_digits (readChar l1)))
         else slice_in_range (input l) (position l) (position l1))
       \<and> lexer_wf (readNumber_digits l)
       \<and> lexer_wf (readNumber_digits (readChar (readNumber_digits l)))" if "isDigit (ch l)"
  proof -
    define l1 where "l1 = readNumber_digits l"
    have l1: "lexer_wf l1" "input l1 = input l" "position l \<le> position l1"
      "position l1 \<le> length (input l)"
      using readNumber_digits_position [OF wf le] that isDigit_not_NUL by (simp_all add: l1_def)
    have l2: "lexer_wf (readNumber_digits (readChar l1))"
      by (simp add: lexer_wf_readNumber_digits)
    have dot: "position l \<le> position (readNumber_digits (readChar l1))
               \<and> position (readNumber_digits (readChar l1)) \<le> length (input l)"
      if d: "ch l1 = CHR ''.''"
    proof -
      have "position l1 < length (input l1)" using d l1(1) by (simp add: lexer_wf_not_NUL)
      then have "position (readChar l1) \<le> length (input (readChar l1))"
        using position_readChar [OF l1(1)] by simp
      from readNumber_digits_position [OF lexer_wf_readChar this] show ?thesis
        using l1 position_readChar [OF l1(1)] by simp
    qed
    show ?thesis
      using l1 l2 dot unfolding l1_def [symmetric] by (simp add: Let_def slice_in_range_def)
  qed
  have range: "NextToken_switch_in_range l"
    using str idt num by (simp add: NextToken_switch_in_range_def)
  have res: "lexer_wf (snd (NextToken_switch l))"
    using wf
    by (simp add: NextToken_switch_def readString_def readIdentifier_def
          readNumber_def Let_def case_prod_beta lexer_wf_readNumber_digits
          lexer_wf_readIdentifier_loop)
  from range res show ?thesis ..
qed

lemma lexer_wf_NextToken: "lexer_wf l \<Longrightarrow> lexer_wf (snd (NextToken l))"
proof (induction l rule: NextToken.induct)
  case (1 l0)
  have ws: "lexer_wf (skipWhitespace l0)" using 1(3) by (rule lexer_wf_skipWhitespace)
  show ?case
    using 1(1,2) [OF refl] ws NextToken_switch_ok [OF ws]
    by (subst NextToken.simps)
       (simp add: Let_def lexer_wf_skipLineComment lexer_wf_skipBlockComment)
qed

lemma NextToken_reaches_EOF:
  "\<exists>n. Token.Type (fst (NextToken (((\<lambda>l. snd (NextToken l)) ^^ n) l))) = EOF"
proof (induction "lexer_measure l" arbitrary: l rule: less_induct)
  case less
  show ?case
  proof (cases "Token.Type (fst (NextToken l)) = EOF")
    case True
    then have "Token.Type (fst (NextToken (((\<lambda>l. snd (NextToken l)) ^^ 0) l))) = EOF" by simp
    then show ?thesis ..
  next
    case False
    then have "lexer_measure (snd (NextToken l)) < lexer_measure l"
      using NextToken_progress [of l] by simp
    from less [OF this] obtain n where
      "Token.Type (fst (NextToken (((\<lambda>l. snd (NextToken l)) ^^ n) (snd (NextToken l))))) = EOF" ..
    moreover have "((\<lambda>l. snd (NextToken l)) ^^ Suc n) l
        = ((\<lambda>l. snd (NextToken l)) ^^ n) (snd (NextToken l))"
      by (simp only: funpow_Suc_right o_apply)
    ultimately have "Token.Type (fst (NextToken (((\<lambda>l. snd (NextToken l)) ^^ Suc n) l))) = EOF"
      by (simp only:)
    then show ?thesis ..
  qed
qed

text \<open>
  Every state is in the domain of \<open>NextToken\<close> and of the loop of \<open>ParseProgram\<close>: the
  recursive calls lower the measures.
\<close>

lemma NextToken_total: "NextToken_dom l"
proof (induction "lexer_measure l" arbitrary: l rule: less_induct)
  case less
  show ?case
  proof (rule accpI)
    fix y
    assume "NextToken_rel y l"
    then have "lexer_measure y < lexer_measure l"
      using lexer_measure_skipWhitespace [of l]
        lexer_measure_skipLineComment [of "skipWhitespace l"]
        lexer_measure_skipBlockComment [of "skipWhitespace l"]
      by (cases rule: NextToken_rel.cases) auto
    then show "NextToken_dom y" by (rule less)
  qed
qed

lemma ParseProgram_loop_total: "ParseProgram_loop_dom (p, stmts)"
proof (induction "parser_measure p" arbitrary: p stmts rule: less_induct)
  case less
  show ?case
  proof (rule accpI)
    fix y
    assume "ParseProgram_loop_rel y (p, stmts)"
    then obtain stmts' where "y = (nextToken (snd (parseStatement p)), stmts')"
      and "\<not> curTokenIs p EOF"
      by (cases rule: ParseProgram_loop_rel.cases) (auto dest: sym)
    then show "ParseProgram_loop_dom y"
      using less [of "nextToken (snd (parseStatement p))" stmts']
        advances_nextToken [OF parseStatement_advances, of p] by simp
  qed
qed

subsection \<open>What the parser keeps\<close>

text \<open>
  \<open>nextToken\<close> and the recording of a diagnostic keep the relation \<open>parser_keeps\<close>, and
  every construct of the parser is made of these two.
\<close>

lemma keeps_refl: "parser_keeps p p"
  by (simp add: parser_keeps_def)

lemma keeps_nextToken: "parser_keeps q p \<Longrightarrow> parser_keeps q (nextToken p)"
  using lexer_wf_NextToken [of "lex p"]
  by (simp add: parser_keeps_def nextToken_def case_prod_beta)

lemma keeps_error:
  "parser_keeps q p \<Longrightarrow> parser_keeps q (p\<lparr>errors := errors p @ [msg]\<rparr>)"
  by (auto simp: parser_keeps_def intro: prefix_order.trans)

lemma lexer_wf_lex_nextToken: "lexer_wf (lex p) \<Longrightarrow> lexer_wf (lex (nextToken p))"
  using keeps_nextToken [OF keeps_refl, of p] by (simp add: parser_keeps_def)

lemma keeps_peekError: "parser_keeps q p \<Longrightarrow> parser_keeps q (peekError p t)"
  by (simp add: peekError_def Let_def keeps_error)

lemma keeps_expectPeek: "parser_keeps q p \<Longrightarrow> parser_keeps q (snd (expectPeek p t))"
  by (simp add: expectPeek_def keeps_nextToken keeps_peekError)

lemma keeps_parseDecorators_arg:
  "parser_keeps q p \<Longrightarrow> parser_keeps q (snd (parseDecorators_arg p dec))"
  by (simp add: parseDecorators_arg_def Let_def case_prod_beta keeps_nextToken)

lemma keeps_parseDecorators_args:
  "parser_keeps q p \<Longrightarrow> parser_keeps q (snd (parseDecorators_args p dec))"
proof (induction p dec rule: parseDecorators_args.induct)
  case (1 p dec)
  show ?case
  proof (cases "\<not> curTokenIs p RPAREN \<and> \<not> curTokenIs p EOF")
    case True
    obtain dec' p' where s: "parseDecorators_arg p dec = (dec', p')"
      by (cases "parseDecorators_arg p dec")
    have "parser_keeps q p'"
      using keeps_parseDecorators_arg [OF 1(2), of dec] s by simp
    from "1.IH" [OF True refl s [symmetric] this] show ?thesis
      using True s by (subst parseDecorators_args.simps) simp
  next
    case False
    then show ?thesis using 1(2) by (subst parseDecorators_args.simps) auto
  qed
qed

lemma keeps_parseDecorators_one:
  "parser_keeps q p \<Longrightarrow> parser_keeps q (snd (snd (parseDecorators_one p)))"
  by (simp add: parseDecorators_one_def Let_def case_prod_beta keeps_nextToken keeps_error
        keeps_parseDecorators_args)

lemma keeps_parseDecorators_loop:
  "parser_keeps q p \<Longrightarrow> parser_keeps q (snd (parseDecorators_loop p ds))"
proof (induction p ds rule: parseDecorators_loop.induct)
  case (1 p ds)
  show ?case
  proof (cases "curTokenIs p AT")
    case True
    obtain dec continue p' where s: "parseDecorators_one p = (dec, continue, p')"
      by (cases "parseDecorators_one p") auto
    have st: "parser_keeps q p'"
      using keeps_parseDecorators_one [OF 1(2)] s by simp
    show ?thesis
    proof (cases continue)
      case True
      from "1.IH" [OF \<open>curTokenIs p AT\<close> s [symmetric] refl refl refl True st] show ?thesis
        using s True \<open>curTokenIs p AT\<close> by (subst parseDecorators_loop.simps) simp
    next
      case False
      then show ?thesis
        using st s \<open>curTokenIs p AT\<close> by (subst parseDecorators_loop.simps) simp
    qed
  next
    case False
    then show ?thesis using 1(2) by (subst parseDecorators_loop.simps) simp
  qed
qed

lemma keeps_parseDecorators:
  "parser_keeps q p \<Longrightarrow> parser_keeps q (snd (parseDecorators p))"
  by (simp add: parseDecorators_def keeps_parseDecorators_loop)

lemma keeps_parseFieldDecl_name:
  "parser_keeps q p \<Longrightarrow> parser_keeps q (snd (parseFieldDecl_name decs ftype isArray p))"
  by (simp add: parseFieldDecl_name_def Let_def keeps_nextToken keeps_error)

lemma keeps_parseFieldDecl:
  "parser_keeps q p \<Longrightarrow> parser_keeps q (snd (parseFieldDecl p))"
  by (simp add: parseFieldDecl_def Let_def case_prod_beta keeps_nextToken keeps_expectPeek
        keeps_parseDecorators keeps_parseFieldDecl_name)

lemma keeps_parseStructDecl_fields:
  "parser_keeps q p \<Longrightarrow> parser_keeps q (snd (parseStructDecl_fields p fs))"
proof (induction p fs rule: parseStructDecl_fields.induct)
  case (1 p fs)
  show ?case
  proof (cases "\<not> curTokenIs p RBRACE \<and> \<not> curTokenIs p EOF")
    case True
    obtain field p1 where s: "parseFieldDecl p = (field, p1)"
      by (cases "parseFieldDecl p")
    have "parser_keeps q (nextToken p1)"
      using keeps_parseFieldDecl [OF 1(2)] s by (simp add: keeps_nextToken)
    from "1.IH" [OF True refl s [symmetric] refl this] show ?thesis
      using True s by (subst parseStructDecl_fields.simps) simp
  next
    case False
    then show ?thesis using 1(2) by (subst parseStructDecl_fields.simps) auto
  qed
qed

lemma keeps_parseStructDecl:
  "parser_keeps q p \<Longrightarrow> parser_keeps q (snd (parseStructDecl p))"
  by (simp add: parseStructDecl_def Let_def case_prod_beta keeps_nextToken keeps_expectPeek
        keeps_parseStructDecl_fields)

lemma keeps_parsePageDecl_body:
  "parser_keeps q p \<Longrightarrow> parser_keeps q (parsePageDecl_body p)"
proof (induction p rule: parsePageDecl_body.induct)
  case (1 p)
  show ?case
    using 1 by (subst parsePageDecl_body.simps) (simp add: keeps_nextToken)
qed

lemma keeps_parsePageDecl:
  "parser_keeps q p \<Longrightarrow> parser_keeps q (snd (parsePageDecl p))"
  by (simp add: parsePageDecl_def Let_def case_prod_beta keeps_nextToken keeps_expectPeek
        keeps_parsePageDecl_body)

lemma keeps_parseFunctionDecl_body:
  "parser_keeps q p \<Longrightarrow> parser_keeps q (parseFunctionDecl_body p n)"
proof (induction p n rule: parseFunctionDecl_body.induct)
  case (1 p n)
  show ?case
    using 1 by (subst parseFunctionDecl_body.simps) (simp add: keeps_nextToken)
qed

lemma keeps_parseFunctionDecl:
  "parser_keeps q p \<Longrightarrow> parser_keeps q (snd (parseFunctionDecl p))"
  by (simp add: parseFunctionDecl_def Let_def keeps_nextToken keeps_parseFunctionDecl_body)

lemma keeps_parseHandlerDecl_param:
  "parser_keeps q p \<Longrightarrow> parser_keeps q (snd (parseHandlerDecl_param p params))"
  by (simp add: parseHandlerDecl_param_def Let_def case_prod_beta keeps_nextToken)

lemma keeps_parseHandlerDecl_params:
  "parser_keeps q p \<Longrightarrow> parser_keeps q (snd (parseHandlerDecl_params p params))"
proof (induction p params rule: parseHandlerDecl_params.induct)
  case (1 p params)
  show ?case
  proof (cases "\<not> curTokenIs p RPAREN \<and> \<not> curTokenIs p EOF")
    case True
    obtain params' p' where s: "parseHandlerDecl_param p params = (params', p')"
      by (cases "parseHandlerDecl_param p params")
    have "parser_keeps q p'"
      using keeps_parseHandlerDecl_param [OF 1(2), of params] s by simp
    from "1.IH" [OF True refl s [symmetric] this] show ?thesis
      using True s by (subst parseHandlerDecl_params.simps) simp
  next
    case False
    then show ?thesis using 1(2) by (subst parseHandlerDecl_params.simps) auto
  qed
qed

lemma keeps_parseHandlerDecl_body:
  "parser_keeps q p \<Longrightarrow> parser_keeps q (parseHandlerDecl_body p n)"
proof (induction p n rule: parseHandlerDecl_body.induct)
  case (1 p n)
  show ?case
    using 1 by (subst parseHandlerDecl_body.simps) (simp add: keeps_nextToken)
qed

lemma keeps_parseHandlerDecl:
  "parser_keeps q p \<Longrightarrow> parser_keeps q (snd (parseHandlerDecl p))"
  by (simp add: parseHandlerDecl_def Let_def case_prod_beta keeps_nextToken
        keeps_parseHandlerDecl_params keeps_parseHandlerDecl_body)

lemma keeps_parseDecoratedStatement:
  "parser_keeps q p \<Longrightarrow> parser_keeps q (snd (parseDecoratedStatement p))"
  by (simp add: parseDecoratedStatement_def Let_def case_prod_beta keeps_parseDecorators
        keeps_parseStructDecl keeps_parsePageDecl keeps_parseHandlerDecl)

lemma keeps_parseStatement:
  "parser_keeps q p \<Longrightarrow> parser_keeps q (snd (parseStatement p))"
  by (simp add: parseStatement_def Let_def case_prod_beta keeps_parseDecoratedStatement
        keeps_parseStructDecl keeps_parsePageDecl keeps_parseHandlerDecl
        keeps_parseFunctionDecl)

lemma keeps_ParseProgram_loop:
  "parser_keeps q p \<Longrightarrow> parser_keeps q (snd (ParseProgram_loop p stmts))"
proof (induction p stmts rule: ParseProgram_loop.induct)
  case (1 p stmts)
  show ?case
  proof (cases "\<not> curTokenIs p EOF")
    case True
    obtain stmt p1 where s: "parseStatement p = (stmt, p1)"
      by (cases "parseStatement p")
    have "parser_keeps q (nextToken p1)"
      using keeps_parseStatement [OF 1(2)] s by (simp add: keeps_nextToken)
    from "1.IH" [OF True refl s [symmetric] refl this] show ?thesis
      using True s by (subst ParseProgram_loop.simps) simp
  next
    case False
    then show ?thesis using 1(2) by (subst ParseProgram_loop.simps) auto
  qed
qed

lemma keeps_ParseProgram: "parser_keeps p (snd (ParseProgram p))"
  by (simp add: ParseProgram_def case_prod_beta keeps_ParseProgram_loop keeps_refl)

subsection \<open>String literals\<close>

lemma NextToken_at_quote:
  "ch l = dquote \<Longrightarrow> NextToken l = NextToken_switch l"
  by (subst NextToken.simps) (simp add: skipWhitespace.simps [of l] Let_def)

lemma NextToken_at_NUL:
  "ch l = NUL \<Longrightarrow> Token.Type (fst (NextToken l)) = EOF"
  by (subst NextToken.simps)
     (simp add: skipWhitespace.simps [of l] Let_def NextToken_switch_def)

lemma string_span_plain:
  "\<forall>c \<in> set a. c \<noteq> dquote \<and> c \<noteq> NUL \<Longrightarrow> string_span a = length a"
proof (induction a)
  case Nil
  then show ?case by simp
next
  case (Cons c a)
  then show ?case by (cases a) auto
qed

lemma string_span_escape:
  "\<forall>c \<in> set a. c \<noteq> dquote \<and> c \<noteq> NUL \<Longrightarrow>
     string_span (a @ CHR 0x5C # dquote # b) = length a + 2 + string_span b"
proof (induction a)
  case Nil
  then show ?case by simp
next
  case (Cons c a)
  then show ?case by (cases a) auto
qed

lemma string_span_close:
  "\<forall>c \<in> set a. c \<noteq> dquote \<and> c \<noteq> NUL \<Longrightarrow> a = [] \<or> last a \<noteq> CHR 0x5C \<Longrightarrow>
     string_span (a @ dquote # b) = length a"
proof (induction a)
  case Nil
  then show ?case by simp
next
  case (Cons c a)
  then show ?case by (cases a) (auto split: if_splits)
qed


text \<open>
  Claim C9, as amended. At a lexer that stands on a double quote, \<open>NextToken\<close> returns a
  token of type \<open>STRING\<close> whose literal is the text after the opening quote cut at
  \<open>string_span\<close>: both delimiters are excluded, the slice is in range, and the lexer ends
  one byte past the byte that stopped the loop. When the span reaches the end of the text
  the next token is \<open>EOF\<close>; the token is of type \<open>STRING\<close> all the same, and the lexer
  has no channel for a diagnostic. On a text \<open>a\<close> without a double quote and without the
  byte zero: a double quote after \<open>a\<close> ends the string unless \<open>a\<close> ends in a backslash; a
  backslash and a double quote after \<open>a\<close> are skipped together and the string goes on; and
  \<open>a\<close> alone, with no closing quote, is consumed to its end.
\<close>

theorem readString_literal:
  \<open>(lexer_wf l \<and> ch l = dquote \<longrightarrow>
      (let rest = drop (position l + 1) (input l);
           n = string_span rest;
           tok = fst (NextToken l);
           l' = snd (NextToken l)
       in Token.Type tok = STRING \<and> Literal tok = take n rest
          \<and> Line tok = line l \<and> Column tok = column l
          \<and> slice_in_range (input l) (position l + 1) (position l + 1 + n)
          \<and> lexer_wf l' \<and> input l' = input l \<and> position l' = position l + n + 2
          \<and> (n = length rest \<longrightarrow> Token.Type (fst (NextToken l')) = EOF)))
   \<and> ((\<forall>c \<in> set a. c \<noteq> dquote \<and> c \<noteq> NUL) \<and> (a = [] \<or> last a \<noteq> CHR 0x5C) \<longrightarrow>
        string_span (a @ dquote # b) = length a)
   \<and> ((\<forall>c \<in> set a. c \<noteq> dquote \<and> c \<noteq> NUL) \<longrightarrow>
        string_span (a @ CHR 0x5C # dquote # b) = length a + 2 + string_span b)
   \<and> ((\<forall>c \<in> set a. c \<noteq> dquote \<and> c \<noteq> NUL) \<longrightarrow> string_span a = length a)\<close>
proof (intro conjI impI)
  assume a: "lexer_wf l \<and> ch l = dquote"
  then have wf: "lexer_wf l" and q: "ch l = dquote" by simp_all
  have lt: "position l < length (input l)"
    using wf q by (auto simp: lexer_wf_def split: if_splits)
  define l1 where "l1 = readChar l"
  define l2 where "l2 = readString_loop l1"
  define rest where "rest = drop (position l + 1) (input l)"
  have l1: "lexer_wf l1" "input l1 = input l" "position l1 = position l + 1"
    using position_readChar [OF wf] by (simp_all add: l1_def)
  have l2: "lexer_wf l2" "input l2 = input l" "position l2 = position l + 1 + string_span rest"
    using readString_loop_span [OF l1(1)] l1 by (simp_all add: l2_def rest_def)
  have tok: "NextToken l =
      (\<lparr>Token.Type = STRING, Literal = slice (input l) (position l + 1) (position l2),
        Line = line l, Column = column l\<rparr>, readChar l2)"
    using q l1 l2
    by (simp add: NextToken_at_quote NextToken_switch_def readString_def Let_def
          l1_def [symmetric] l2_def [symmetric])
  have lit: "slice (input l) (position l + 1) (position l2) = take (string_span rest) rest"
    by (simp add: slice_def l2 rest_def)
  have range: "slice_in_range (input l) (position l + 1) (position l + 1 + string_span rest)"
    using string_span_le [of rest] lt by (simp add: slice_in_range_def rest_def)
  have l3: "lexer_wf (readChar l2)" "input (readChar l2) = input l"
    "position (readChar l2) = position l + string_span rest + 2"
    using position_readChar [OF l2(1)] l2 by simp_all
  have eof: "Token.Type (fst (NextToken (readChar l2))) = EOF" if "string_span rest = length rest"
  proof -
    have "position (readChar l2) \<ge> length (input l)"
      using that l3 lt by (simp add: rest_def)
    then have "ch (readChar l2) = NUL"
      using l3 by (simp add: lexer_wf_def)
    then show ?thesis by (rule NextToken_at_NUL)
  qed
  show "let rest = drop (position l + 1) (input l);
           n = string_span rest;
           tok = fst (NextToken l);
           l' = snd (NextToken l)
       in Token.Type tok = STRING \<and> Literal tok = take n rest
          \<and> Line tok = line l \<and> Column tok = column l
          \<and> slice_in_range (input l) (position l + 1) (position l + 1 + n)
          \<and> lexer_wf l' \<and> input l' = input l \<and> position l' = position l + n + 2
          \<and> (n = length rest \<longrightarrow> Token.Type (fst (NextToken l')) = EOF)"
    using lit range l3 eof unfolding rest_def by (simp add: Let_def tok)
qed (simp_all add: string_span_close string_span_escape string_span_plain)

theorem readString_literal_witness:
  \<open>Token.Type (fst (NextToken (New_Lexer (dquote # ''ab'' @ CHR 0x5C # dquote # ''cd'' @ dquote # '' x'')))) = STRING
   \<and> Literal (fst (NextToken (New_Lexer (dquote # ''ab'' @ CHR 0x5C # dquote # ''cd'' @ dquote # '' x''))))
        = ''ab'' @ CHR 0x5C # dquote # ''cd''
   \<and> position (snd (NextToken (New_Lexer (dquote # ''ab'' @ CHR 0x5C # dquote # ''cd'' @ dquote # '' x'')))) = 8
   \<and> Literal (fst (NextToken (New_Lexer (dquote # ''abc'')))) = ''abc''
   \<and> Token.Type (fst (NextToken (snd (NextToken (New_Lexer (dquote # ''abc'')))))) = EOF
   \<and> string_span (''ab'' @ dquote # '' x'') = 2
   \<and> string_span (''ab'' @ CHR 0x5C # dquote # '' x'') = 6
   \<and> string_span ''ab'' = 2\<close>
proof -
  define src where "src = dquote # ''ab'' @ CHR 0x5C # dquote # ''cd'' @ dquote # '' x''"
  define open_src where "open_src = dquote # ''abc''"
  have l: "lexer_wf (New_Lexer src) \<and> ch (New_Lexer src) = dquote"
    "position (New_Lexer src) = 0" "input (New_Lexer src) = src"
    by (simp_all add: lexer_wf_New_Lexer) (simp_all add: New_Lexer_def readChar_def src_def Let_def)
  have span: "string_span (drop 1 src) = 6" "take 6 (drop 1 src) = ''ab'' @ CHR 0x5C # dquote # ''cd''"
    by (simp_all add: src_def)
  have l': "lexer_wf (New_Lexer open_src) \<and> ch (New_Lexer open_src) = dquote"
    "position (New_Lexer open_src) = 0" "input (New_Lexer open_src) = open_src"
    by (simp_all add: lexer_wf_New_Lexer)
       (simp_all add: New_Lexer_def readChar_def open_src_def Let_def)
  have span': "string_span (drop 1 open_src) = 3" "drop 1 open_src = ''abc''"
    "length open_src = 4"
    by (simp_all add: open_src_def)
  note inst = readString_literal [of "New_Lexer src" "''ab''" "'' x''", unfolded Let_def]
  note inst' = readString_literal [of "New_Lexer open_src" "''ab''" "'' x''", unfolded Let_def]
  from inst inst' l l' span span' show ?thesis
    unfolding src_def [symmetric] open_src_def [symmetric] by simp
qed

text \<open>
  The claim as stated covers every text. The loop of \<open>readString\<close> also stops at a byte
  zero, which the lexer uses as its end mark: the literal ends there, before the closing
  quote, and for a string that is not closed the lexer resumes after the byte zero, before
  the end of the text.
\<close>

theorem readString_NUL_counterexample:
  \<open>Token.Type (fst (NextToken (New_Lexer (dquote # ''a'' @ NUL # ''b'' @ [dquote])))) = STRING
   \<and> Literal (fst (NextToken (New_Lexer (dquote # ''a'' @ NUL # ''b'' @ [dquote])))) = ''a''
   \<and> Token.Type (fst (NextToken (New_Lexer (dquote # ''a'' @ NUL # ''b'')))) = STRING
   \<and> Literal (fst (NextToken (New_Lexer (dquote # ''a'' @ NUL # ''b'')))) = ''a''
   \<and> position (snd (NextToken (New_Lexer (dquote # ''a'' @ NUL # ''b'')))) = 3
   \<and> length (dquote # ''a'' @ NUL # ''b'') = 4
   \<and> fst (NextToken (snd (NextToken (New_Lexer (dquote # ''a'' @ NUL # ''b'')))))
       = \<lparr>Token.Type = IDENT, Literal = ''b'', Line = 1, Column = 4\<rparr>\<close>
  by code_simp

subsection \<open>Termination of parsing\<close>

text \<open>
  Claim C7. The loop of \<open>ParseProgram\<close> and \<open>NextToken\<close> terminate on every state. An
  iteration of the loop of \<open>ParseProgram\<close>, that is \<open>parseStatement\<close> and then
  \<open>nextToken\<close>, lowers the measure of the parser: the bytes left to read, plus one for each
  of the two tokens held that is not \<open>EOF\<close>. From a new lexer on any text, \<open>NextToken\<close>
  returns \<open>EOF\<close> after finitely many calls. The parser has no statement that panics; a
  statement and the whole program only append to the list \<open>errors\<close> of diagnostics. The
  slice expressions of the tokenizer are the only operations that can panic, and they are
  in range at every lexer that satisfies the cursor invariant: a new lexer and the lexer
  of a new parser satisfy it, and every step of \<open>NextToken\<close>, every statement and the whole
  program keep it.
\<close>

theorem ParseProgram_terminates:
  \<open>ParseProgram_loop_dom (p, stmts) \<and> NextToken_dom l
   \<and> (\<not> curTokenIs p EOF \<longrightarrow>
        parser_measure (nextToken (snd (parseStatement p))) < parser_measure p)
   \<and> (\<exists>n. Token.Type (fst (NextToken (((\<lambda>l. snd (NextToken l)) ^^ n) (New_Lexer src)))) = EOF)
   \<and> prefix (errors p) (errors (snd (parseStatement p)))
   \<and> prefix (errors p) (errors (snd (ParseProgram p)))
   \<and> lexer_wf (New_Lexer src)
   \<and> lexer_wf (lex (New_Parser (New_Lexer src)))
   \<and> (lexer_wf l \<longrightarrow>
        lexer_wf (skipWhitespace l) \<and> lexer_wf (skipLineComment l)
        \<and> lexer_wf (skipBlockComment l) \<and> NextToken_switch_in_range l
        \<and> lexer_wf (snd (NextToken_switch l)) \<and> lexer_wf (snd (NextToken l)))
   \<and> (lexer_wf (lex p) \<longrightarrow>
        lexer_wf (lex (nextToken p)) \<and> lexer_wf (lex (snd (parseStatement p)))
        \<and> lexer_wf (lex (snd (ParseProgram p))))\<close>
proof (intro conjI impI)
  show "ParseProgram_loop_dom (p, stmts)" by (rule ParseProgram_loop_total)
  show "NextToken_dom l" by (rule NextToken_total)
  show "parser_measure (nextToken (snd (parseStatement p))) < parser_measure p"
    if "\<not> curTokenIs p EOF"
    using that by (rule advances_nextToken [OF parseStatement_advances])
  show "\<exists>n. Token.Type (fst (NextToken (((\<lambda>l. snd (NextToken l)) ^^ n) (New_Lexer src)))) = EOF"
    by (rule NextToken_reaches_EOF)
  show "prefix (errors p) (errors (snd (parseStatement p)))"
    using keeps_parseStatement [OF keeps_refl, of p] by (simp add: parser_keeps_def)
  show "prefix (errors p) (errors (snd (ParseProgram p)))"
    using keeps_ParseProgram [of p] by (simp add: parser_keeps_def)
  show "lexer_wf (New_Lexer src)" by (rule lexer_wf_New_Lexer)
  show "lexer_wf (lex (New_Parser (New_Lexer src)))"
    by (simp add: New_Parser_def lexer_wf_lex_nextToken lexer_wf_New_Lexer)
  show "lexer_wf (lex (nextToken p))" if "lexer_wf (lex p)"
    using that by (rule lexer_wf_lex_nextToken)
  show "lexer_wf (lex (snd (parseStatement p)))" if "lexer_wf (lex p)"
    using that keeps_parseStatement [OF keeps_refl, of p] by (simp add: parser_keeps_def)
  show "lexer_wf (lex (snd (ParseProgram p)))" if "lexer_wf (lex p)"
    using that keeps_ParseProgram [of p] by (simp add: parser_keeps_def)
qed (simp_all add: lexer_wf_skipWhitespace lexer_wf_skipLineComment lexer_wf_skipBlockComment
       NextToken_switch_ok lexer_wf_NextToken)

theorem ParseProgram_terminates_witness:
  \<open>parser_measure (nextToken (snd (parseStatement (New_Parser (New_Lexer ''struct S { int a }'')))))
     < parser_measure (New_Parser (New_Lexer ''struct S { int a }''))
   \<and> lexer_wf (snd (NextToken (New_Lexer ''struct S { int a }'')))
   \<and> NextToken_switch_in_range (New_Lexer ''struct S { int a }'')
   \<and> lexer_wf (lex (snd (ParseProgram (New_Parser (New_Lexer ''struct S { int a }'')))))
   \<and> ParseProgram_loop_dom (New_Parser (New_Lexer ''struct S { int a }''), [])\<close>
proof -
  have c: "\<not> curTokenIs (New_Parser (New_Lexer ''struct S { int a }'')) EOF"
    by code_simp
  have w: "lexer_wf (New_Lexer ''struct S { int a }'')"
    by code_simp
  have v: "lexer_wf (lex (New_Parser (New_Lexer ''struct S { int a }'')))"
    by code_simp
  note inst = ParseProgram_terminates [of "New_Parser (New_Lexer ''struct S { int a }'')" "[]"
      "New_Lexer ''struct S { int a }''" "''struct S { int a }''"]
  from inst c w v show ?thesis by blast
qed

subsection \<open>A field without its semicolon\<close>

text \<open>
  Claim C6. On \<open>struct S { int a int b; int c; }\<close> the field \<open>a\<close> lacks its semicolon.
  \<open>parseFieldDecl\<close> records the diagnostic at the token after the name (line 1, column
  18) and returns no field, with the current token on the \<open>int\<close> of the field \<open>b\<close>. The
  loop of \<open>parseStructDecl\<close> then calls \<open>nextToken\<close>, which skips that \<open>int\<close>; the next
  two iterations find \<open>b\<close> and \<open>;\<close>, neither of which starts a field. The field \<open>b\<close> is
  well formed and follows in the same body, and it is not in the list: only \<open>c\<close> is.
\<close>

theorem parse_missing_semicolon:
  \<open>map (\<lambda>n. case n of
            StructNode (Some s) \<Rightarrow>
              Some (StructDecl.Name s,
                    map (\<lambda>f. (FieldDecl.Type f, FieldDecl.Name f, FieldDecl.IsArray f))
                        (StructDecl.Fields s))
          | _ \<Rightarrow> None)
       (Statements (fst (parse ''struct S { int a int b; int c; }'')))
     = [Some (''S'', [(''int'', ''c'', False)])]
   \<and> snd (parse ''struct S { int a int b; int c; }'')
     = [''Line 1:18: expected '' @ squote @ '';'' @ squote @ '' after field declaration'']\<close>
  by code_simp



end
